theory Spec2Isabelle
  imports Main "HOL-Library.Word" "HOL-Library.Sublist"
begin

unbundle bit_operations_syntax

section \<open>Data model of the XRSP host (ql\_xrsp\_types.h, ql\_xrsp.cpp)\<close>

type_synonym byte = "8 word"

text \<open>
  Modelled from the spec: the enum of pairing states, whose declaration (the
  \<open>PAIRINGSTATE_*\<close> constants of ql\_xrsp\_hostinfo.h) is not among the sources.
\<close>

datatype pairing =
    PAIRINGSTATE_WAIT_FIRST
  | PAIRINGSTATE_WAIT_SECOND
  | PAIRINGSTATE_PAIRING
  | PAIRINGSTATE_PAIRED

text \<open>
  Modelled from the spec: \<open>xrsp_topic_header\<close>, the 8-byte header of a topic frame
  (its declaration is not among the sources). The fields are the ones
  \<open>xrsp_send_to_topic_raw\<close> assigns; \<open>sizeof(xrsp_topic_header)\<close> is 8.
\<close>

record xrsp_topic_header =
  version_maybe :: nat
  has_alignment_padding :: bool
  packet_version_is_internal :: bool
  packet_version_number :: nat
  topic :: "8 word"
  unk_14_15 :: nat
  num_words :: "16 word"
  sequence_num :: "16 word"
  pad :: nat

text \<open>A topic frame on the wire: its header followed by the payload bytes.\<close>

record topic_frame =
  header :: xrsp_topic_header
  payload :: "byte list"

definition sizeof_xrsp_topic_header :: int where
  "sizeof_xrsp_topic_header = 8"

definition frame_size :: "topic_frame \<Rightarrow> nat" where
  "frame_size f = 8 + length (payload f)"

definition msg_bytes :: "topic_frame list \<Rightarrow> nat" where
  "msg_bytes fs = sum_list (map frame_size fs)"

text \<open>
  What the calling thread does to the outside world, in order: operations on
  \<open>usb_mutex\<close>, buffers handed to \<open>xrsp_send_usb\<close>, the \<open>PayloadSlice\<close>
  messages \<open>xrsp_send_video\<close> sends, and the libusb calls and sleeps of
  \<open>ql_xrsp_usb_init\<close>. A slice message comes with the two arguments \<open>index\<close> and
  \<open>frame_started_ns\<close> of the call of \<open>xrsp_send_video\<close> that sends it (the message
  has no field for them): they tell which frame the message is for.
\<close>

text \<open>
  The integer fields \<open>xrsp_send_video\<close> sets in the \<open>PayloadSlice\<close> message; the
  pose (floating point) and the timestamps derived from it are left out.
\<close>

record payload_slice =
  frameIdx :: int
  sliceNum :: int
  unk6p1 :: int
  csdSize :: nat
  videoSize :: nat

datatype event =
    EvLock
  | EvUnlock
  | EvSendUsb "topic_frame list"
  | EvSlice payload_slice int int
  | EvUsbClose
  | EvUsbOpen bool
  | EvUsbReset
  | EvSleepMs nat

text \<open>libusb's result codes and speeds (libusb.h, an external library).\<close>

definition LIBUSB_SUCCESS :: int where "LIBUSB_SUCCESS = 0"
definition LIBUSB_ERROR_NO_DEVICE :: int where "LIBUSB_ERROR_NO_DEVICE = - 4"
definition LIBUSB_ERROR_NOT_FOUND :: int where "LIBUSB_ERROR_NOT_FOUND = - 5"
definition LIBUSB_ERROR_TIMEOUT :: int where "LIBUSB_ERROR_TIMEOUT = - 7"
definition LIBUSB_SPEED_LOW :: int where "LIBUSB_SPEED_LOW = 1"
definition LIBUSB_SPEED_SUPER :: int where "LIBUSB_SPEED_SUPER = 4"
definition LIBUSB_SPEED_SUPER_PLUS :: int where "LIBUSB_SPEED_SUPER_PLUS = 5"

definition QL_SWAPCHAIN_DEPTH :: nat where "QL_SWAPCHAIN_DEPTH = 3"
definition QL_NUM_SLICES :: nat where "QL_NUM_SLICES = 1"

definition QL_IDX_SLICE :: "int \<Rightarrow> int \<Rightarrow> int" where
  "QL_IDX_SLICE slice_idx frame_idx = (slice_idx * int QL_SWAPCHAIN_DEPTH) + frame_idx"

definition INT32_MAX :: nat where "INT32_MAX = 0x7FFFFFFF"

text \<open>
  \<open>int64_t\<close> and \<open>int\<close> arithmetic on \<open>int\<close>, the wrap-around written out;
  \<open>c_div\<close> is C's \<open>/\<close>, which truncates towards zero, and \<open>>> 1\<close> on an
  \<open>int64_t\<close> is \<open>drop_bit 1\<close> (it rounds towards minus infinity).
\<close>

definition s64 :: "int \<Rightarrow> int" where
  "s64 x = signed_take_bit 63 x"

definition s32 :: "int \<Rightarrow> int" where
  "s32 x = signed_take_bit 31 x"

definition c_div :: "int \<Rightarrow> int \<Rightarrow> int" where
  "c_div a b = (if (a < 0) = (b < 0) then \<bar>a\<bar> div \<bar>b\<bar> else - (\<bar>a\<bar> div \<bar>b\<bar>))"

text \<open>
  The fields of \<open>struct ql_xrsp_host\<close> that the modelled functions read or write.
  \<open>dev\<close> is True when the handle is not NULL and \<open>usb_mutex\<close> is True while the
  mutex is held. The arrays have one entry per slot,
  \<open>QL_SWAPCHAIN_DEPTH * QL_NUM_SLICES\<close> in all; \<open>csd_stream\<close> and
  \<open>idr_stream\<close> hold the bytes of the 0x1000000-byte buffers. \<open>hmd_attached\<close> is
  True when neither \<open>host->sys\<close> nor \<open>host->sys->hmd\<close> is NULL, and
  \<open>hmd_pose_ns\<close> is then \<open>host->sys->hmd->pose_ns\<close>.

  The last six fields are not in the struct. \<open>trace\<close> records the events above;
  \<open>bulk_out n\<close> is the pair \<open>(r, sent_len)\<close> that the n-th call of
  \<open>libusb_bulk_transfer\<close> on the OUT endpoint returns and \<open>n_out\<close> counts these
  calls; \<open>mono_ns n\<close> is what the n-th call of \<open>os_monotonic_get_ns\<close> returns and
  \<open>n_clock\<close> counts them; \<open>usb_open n\<close> tells whether the n-th call of
  \<open>libusb_open_device_with_vid_pid\<close> returns a handle and \<open>n_open\<close> counts them.
\<close>

record ql_xrsp_host =
  dev :: bool
  usb_valid :: bool
  usb_slow_cable :: bool
  usb_speed :: int
  client_id :: "32 word"
  increment :: "16 word"
  pairing_state :: pairing
  echo_idx :: int
  ns_offset :: int
  ns_offset_from_target :: int
  echo_req_sent_ns :: int
  echo_req_recv_ns :: int
  echo_resp_sent_ns :: int
  echo_resp_recv_ns :: int
  last_xmt :: int
  num_slices :: int
  frame_sent_ns :: int
  paired_ns :: int
  last_read_ns :: int
  usb_mutex :: bool
  ready_to_send_frames :: bool
  sent_first_frame :: bool
  frame_idx :: int
  needs_flush :: "bool list"
  csd_stream :: "byte list list"
  idr_stream :: "byte list list"
  csd_stream_len :: "nat list"
  idr_stream_len :: "nat list"
  stream_started_ns :: "int list"
  stream_pose_ns :: "int list"
  encode_started_ns :: "int list"
  encode_done_ns :: "int list"
  encode_duration_ns :: "int list"
  tx_started_ns :: "int list"
  tx_done_ns :: "int list"
  tx_duration_ns :: "int list"
  sent_mesh :: bool
  is_inactive :: bool
  hmd_attached :: bool
  hmd_pose_ns :: int
  trace :: "event list"
  bulk_out :: "nat \<Rightarrow> int \<times> int"
  n_out :: nat
  mono_ns :: "nat \<Rightarrow> int"
  n_clock :: nat
  usb_open :: "nat \<Rightarrow> bool"
  n_open :: nat

text \<open>
  Ways in which a call does not return normally: a lock on a mutex that is already held
  (\<open>os_mutex\<close> is not recursive), a busy-wait on a slot another thread has to
  drain, an overflow of a signed integer and an access outside an array or buffer.
\<close>

datatype fault =
    Deadlock
  | Blocked
  | SignedOverflow
  | OutOfBounds

definition bind_res :: "fault + 'a \<Rightarrow> ('a \<Rightarrow> fault + 'b) \<Rightarrow> fault + 'b" where
  "bind_res m f = (case m of Inl e \<Rightarrow> Inl e | Inr x \<Rightarrow> f x)"

fun seq_res :: "('s \<Rightarrow> fault + 's) list \<Rightarrow> 's \<Rightarrow> fault + 's" where
  "seq_res [] s = Inr s"
| "seq_res (f # fs) s = (case f s of Inl e \<Rightarrow> Inl e | Inr s' \<Rightarrow> seq_res fs s')"

definition xrsp_ts_ns :: "ql_xrsp_host \<Rightarrow> int \<times> ql_xrsp_host" where
  "xrsp_ts_ns host = (s64 (mono_ns host (n_clock host)), host\<lparr>n_clock := n_clock host + 1\<rparr>)"

section \<open>USB transport: \<open>xrsp_send_usb\<close>\<close>

definition xrsp_send_usb :: "ql_xrsp_host \<Rightarrow> topic_frame list \<Rightarrow> ql_xrsp_host" where
  "xrsp_send_usb host msg =
     (if \<not> usb_valid host then host
      else
        (let (r, sent_len) = bulk_out host (n_out host);
             host1 = host\<lparr>n_out := n_out host + 1\<rparr>
         in if r \<noteq> 0 \<or> sent_len = 0
            then (if r = LIBUSB_ERROR_NO_DEVICE \<or> r = LIBUSB_ERROR_TIMEOUT
                  then host1\<lparr>usb_valid := False, pairing_state := PAIRINGSTATE_WAIT_FIRST\<rparr>
                  else host1)
            else host1))"

section \<open>Topic framer: \<open>xrsp_send_to_topic_raw\<close> and \<open>xrsp_send_to_topic\<close>\<close>

text \<open>
  The buffer \<open>msg\<close> that \<open>xrsp_send_to_topic_raw\<close> builds for a payload
  \<open>data\<close> (whose length is \<open>data_size\<close>) and hands to \<open>xrsp_send_usb\<close>:
  the data frame, and the filler frame when one is appended. \<open>>> 2\<close> is
  \<open>drop_bit 2\<close>, \<open><< 2\<close> is \<open>push_bit 2\<close>, \<open>&\<close> is \<open>AND\<close>.
\<close>

definition topic_msg :: "8 word \<Rightarrow> byte list \<Rightarrow> 16 word \<Rightarrow> topic_frame list" where
  "topic_msg tp data incr =
     (let data_size = int (length data);
          align0 = push_bit 2 (drop_bit 2 (4 + data_size)) - data_size;
          align1 = (if align0 = 4 then 0 else align0);
          msg_size0 = data_size + align1 + sizeof_xrsp_topic_header;
          to_fill_check = 0x400 - ((msg_size0 + 0x400) AND 0x3FF);
          align_up_bytes =
            (if to_fill_check \<ge> 0 \<and> to_fill_check < 8 then align1 + to_fill_check else align1);
          msg_size = data_size + align_up_bytes + sizeof_xrsp_topic_header;
          hdr = \<lparr> version_maybe = 0,
                  has_alignment_padding = (align_up_bytes \<noteq> 0),
                  packet_version_is_internal = True,
                  packet_version_number = 0,
                  topic = tp,
                  unk_14_15 = 0,
                  num_words = word_of_int (drop_bit 2 (data_size + align_up_bytes) + 1),
                  sequence_num = incr,
                  pad = 0 \<rparr>;
          msg_payload =
            data @
            (if align_up_bytes \<noteq> 0
             then (if align_up_bytes > 1 then replicate (nat (align_up_bytes - 1)) 0xDE else [])
                  @ [word_of_int align_up_bytes]
             else []);
          to_fill = 0x400 - ((msg_size + 0x400) AND 0x3FF) - 8;
          fill_hdr = \<lparr> version_maybe = 0,
                       has_alignment_padding = False,
                       packet_version_is_internal = True,
                       packet_version_number = 0,
                       topic = 0,
                       unk_14_15 = 0,
                       num_words = word_of_int (drop_bit 2 to_fill + 1),
                       sequence_num = incr,
                       pad = 0 \<rparr>
      in if to_fill < 0x3f8 \<and> to_fill \<ge> 0
         then [\<lparr>header = hdr, payload = msg_payload\<rparr>,
               \<lparr>header = fill_hdr, payload = replicate (nat to_fill) 0\<rparr>]
         else [\<lparr>header = hdr, payload = msg_payload\<rparr>])"

definition xrsp_send_to_topic_raw ::
  "ql_xrsp_host \<Rightarrow> 8 word \<Rightarrow> byte list \<Rightarrow> ql_xrsp_host" where
  "xrsp_send_to_topic_raw host tp data =
     (let msg = topic_msg tp data (increment host);
          host1 = xrsp_send_usb (host\<lparr>trace := trace host @ [EvSendUsb msg]\<rparr>) msg
      in host1\<lparr>increment := increment host1 + 1\<rparr>)"

text \<open>
  The loop of \<open>xrsp_send_to_topic\<close>, from the value \<open>idx\<close> on. \<open>idx\<close> and
  \<open>to_send\<close> are \<open>int32_t\<close> and never negative; the sum \<open>idx+amt\<close> of the
  source is computed before the comparison, and has no value when it exceeds
  \<open>INT32_MAX\<close>.
\<close>

definition chunk_amt :: "nat \<Rightarrow> nat \<Rightarrow> nat" where
  "chunk_amt idx to_send = (if idx + 0x3FFF8 \<ge> to_send then to_send - idx else 0x3FFF8)"

function send_chunks ::
  "ql_xrsp_host \<Rightarrow> 8 word \<Rightarrow> byte list \<Rightarrow> nat \<Rightarrow> nat \<Rightarrow> fault + ql_xrsp_host" where
  "send_chunks host tp data idx to_send =
     (if idx \<ge> to_send then Inr host
      else if idx + 0x3FFF8 > INT32_MAX then Inl SignedOverflow
      else send_chunks
             (xrsp_send_to_topic_raw host tp (take (chunk_amt idx to_send) (drop idx data)))
             tp data (idx + chunk_amt idx to_send) to_send)"
  by pat_completeness auto
termination
  by (relation "measure (\<lambda>(host, tp, data, idx, to_send). to_send - idx)")
     (auto simp: chunk_amt_def)

declare send_chunks.simps [simp del]

text \<open>
  \<open>data_size\<close> is the length of \<open>data\<close>. The mutex is locked before the two
  checks, and neither early return unlocks it. The host is a value here, so the
  \<open>!host\<close> check never fires.
\<close>

definition xrsp_send_to_topic ::
  "ql_xrsp_host \<Rightarrow> 8 word \<Rightarrow> byte list \<Rightarrow> fault + ql_xrsp_host" where
  "xrsp_send_to_topic host tp data =
     (if usb_mutex host then Inl Deadlock
      else
        (let host1 = host\<lparr>usb_mutex := True, trace := trace host @ [EvLock]\<rparr>
         in if int (length data) \<le> 0 then Inr host1
            else bind_res (send_chunks host1 tp data 0 (length data))
                   (\<lambda>host2. Inr (host2\<lparr>usb_mutex := False,
                                          trace := trace host2 @ [EvUnlock]\<rparr>))))"

text \<open>Little-endian bytes of an unsigned value, as the host stores its integers.\<close>

fun le_bytes :: "nat \<Rightarrow> nat \<Rightarrow> byte list" where
  "le_bytes 0 v = []"
| "le_bytes (Suc n) v = of_nat (v mod 256) # le_bytes n (v div 256)"

definition u32_bytes :: "32 word \<Rightarrow> byte list" where
  "u32_bytes w = le_bytes 4 (unat w)"

definition xrsp_send_to_topic_capnp_wrapped ::
  "ql_xrsp_host \<Rightarrow> 8 word \<Rightarrow> 32 word \<Rightarrow> byte list \<Rightarrow> fault + ql_xrsp_host" where
  "xrsp_send_to_topic_capnp_wrapped host tp idx data =
     (let preamble = u32_bytes idx @ u32_bytes (drop_bit 3 (of_nat (length data)))
      in bind_res (xrsp_send_to_topic host tp preamble)
           (\<lambda>host1. xrsp_send_to_topic host1 tp data))"

definition xrsp_send_to_topic_capnp_segments ::
  "ql_xrsp_host \<Rightarrow> 8 word \<Rightarrow> 32 word \<Rightarrow> byte list list \<Rightarrow> fault + ql_xrsp_host" where
  "xrsp_send_to_topic_capnp_segments host tp idx segs =
     (let preamble =
            u32_bytes idx @ concat (map (\<lambda>seg. u32_bytes (drop_bit 3 (of_nat (length seg)))) segs)
      in bind_res (xrsp_send_to_topic host tp preamble)
           (seq_res (map (\<lambda>seg host1. xrsp_send_to_topic host1 tp seg) segs)))"

section \<open>What the model takes from outside the listed sources\<close>

text \<open>
  Modelled from the spec: the message types of \<open>TOPIC_HOSTINFO_ADV\<close> (the
  \<open>BUILTIN_*\<close> constants of ql\_xrsp\_hostinfo.h, not among the sources);
  \<open>BUILTIN_OTHER\<close> stands for any other value of the byte.
\<close>

datatype builtin =
    BUILTIN_PAIRING_ACK
  | BUILTIN_INVITE
  | BUILTIN_OK
  | BUILTIN_ACK
  | BUILTIN_BYE
  | BUILTIN_ECHO
  | BUILTIN_PAIRING
  | BUILTIN_CODE_GENERATION
  | BUILTIN_CODE_GENERATION_ACK
  | BUILTIN_OTHER "8 word"

datatype echo_kind = ECHO_PING | ECHO_PONG

text \<open>The calls into the RPC layer (ql\_xrsp\_ipc, not among the sources).\<close>

datatype ripc_call =
    EnsureServiceStarted "32 word" string string
  | ConnectToRemoteServer nat string string string
  | VoidBoolCmd "32 word" string

text \<open>The schema-encoded messages built with the capnp library.\<close>

datatype capnp_msg =
    PayloadSlice payload_slice
  | PayloadAudioControl nat nat nat
  | PayloadRectifyMesh

text \<open>
  Constants, encoders and procedures that the modelled functions use and whose
  definitions are not among the sources: the topic and command numbers
  (ql\_xrsp\_types.h), the hostinfo encoders (ql\_xrsp\_hostinfo), the capnp message
  builder, the RPC layer, the reader loop \<open>xrsp_read_usb\<close> (it is in ql\_xrsp.cpp,
  but parses with \<open>ql_xrsp_topic_pkt_create\<close> and re-enters the dispatcher), and
  two values of the build and of the HMD (\<open>(uint8_t)hmd->fps\<close> and the codec).
\<close>

record externals =
  TOPIC_HOSTINFO_ADV :: "8 word"
  TOPIC_COMMAND :: "8 word"
  TOPIC_VIDEO :: "8 word"
  TOPIC_MESH :: "8 word"
  TOPIC_AUDIO_CONTROL :: "8 word"
  TOPIC_INPUT_CONTROL :: "8 word"
  TOPIC_SLICE_0 :: "8 word"
  COMMAND_TOGGLE_CHEMX :: "32 word"
  COMMAND_TOGGLE_ASW :: "32 word"
  COMMAND_DROP_FRAMES_STATE :: "32 word"
  ql_xrsp_craft_capnp :: "builtin \<Rightarrow> nat \<Rightarrow> nat \<Rightarrow> byte list \<Rightarrow> byte list"
  ql_xrsp_craft_echo :: "echo_kind \<Rightarrow> int \<Rightarrow> int \<Rightarrow> int \<Rightarrow> int \<Rightarrow> int \<Rightarrow> byte list"
  segments_for_output :: "capnp_msg \<Rightarrow> byte list list"
  xrsp_ripc :: "ripc_call \<Rightarrow> ql_xrsp_host \<Rightarrow> fault + ql_xrsp_host"
  xrsp_read_usb :: "ql_xrsp_host \<Rightarrow> fault + ql_xrsp_host"
  hmd_fps :: "8 word"
  encoding_type :: "8 word"

section \<open>Video pipeline: the encoder's side\<close>

definition slots :: nat where
  "slots = QL_SWAPCHAIN_DEPTH * QL_NUM_SLICES"

text \<open>An index into the per-slot arrays is inside them.\<close>

definition slot_ok :: "int \<Rightarrow> bool" where
  "slot_ok i = (0 \<le> i \<and> i < int slots)"

text \<open>\<open>memcpy(buf + off, data, data_len)\<close> on a buffer that is large enough.\<close>

definition memcpy_at :: "byte list \<Rightarrow> nat \<Rightarrow> byte list \<Rightarrow> byte list" where
  "memcpy_at buf off data = take off buf @ data @ drop (off + length data) buf"

text \<open>
  \<open>xrsp_flush_stream\<close>. The function-local static \<open>last_ns\<close> only feeds a value
  that is never used, and the slot's mutex is locked and unlocked on every path; neither
  is modelled.
\<close>

definition xrsp_flush_stream ::
  "ql_xrsp_host \<Rightarrow> int \<Rightarrow> int \<Rightarrow> int \<Rightarrow> fault + ql_xrsp_host" where
  "xrsp_flush_stream host target_ns index slice_idx =
     (if \<not> ready_to_send_frames host then Inr host
      else if \<not> slot_ok (QL_IDX_SLICE slice_idx index) then Inl OutOfBounds
      else
        (let stream_write_idx = nat (QL_IDX_SLICE slice_idx index);
             (t, host1) = xrsp_ts_ns host;
             host2 = host1\<lparr>encode_done_ns := (encode_done_ns host1)[stream_write_idx := t]\<rparr>
         in if csd_stream_len host2 ! stream_write_idx \<noteq> 0
               \<or> idr_stream_len host2 ! stream_write_idx \<noteq> 0
            then Inr (host2\<lparr>
                   needs_flush := (needs_flush host2)[stream_write_idx := True],
                   stream_started_ns := (stream_started_ns host2)[stream_write_idx := target_ns],
                   encode_duration_ns := (encode_duration_ns host2)[stream_write_idx :=
                      s64 (encode_done_ns host2 ! stream_write_idx
                            - encode_started_ns host2 ! stream_write_idx)]\<rparr>)
            else Inr host2))"

text \<open>
  \<open>xrsp_start_encode\<close>, \<open>xrsp_send_csd\<close> and \<open>xrsp_send_idr\<close> wait while the
  slot's \<open>needs_flush\<close> is set: only the writer thread can end the wait, so the call
  is \<open>Blocked\<close> here. The captured pose (floating point) is not modelled.
\<close>

definition xrsp_start_encode ::
  "ql_xrsp_host \<Rightarrow> int \<Rightarrow> int \<Rightarrow> int \<Rightarrow> fault + ql_xrsp_host" where
  "xrsp_start_encode host target_ns index slice_idx =
     (if \<not> slot_ok (QL_IDX_SLICE slice_idx index) then Inl OutOfBounds
      else
        (let write_index = nat (QL_IDX_SLICE slice_idx index)
         in if needs_flush host ! write_index then Inl Blocked
            else
              (let (t, host1) = xrsp_ts_ns host
               in Inr (host1\<lparr>
                    encode_started_ns := (encode_started_ns host1)[write_index := t],
                    stream_pose_ns := (stream_pose_ns host1)[write_index := target_ns]\<rparr>))))"

text \<open>
  \<open>data_len\<close> is the length of \<open>data\<close>; the sum of the two \<open>size_t\<close> values
  wraps at \<open>2 ^ 64\<close>. A copy that would not fit the buffer is \<open>OutOfBounds\<close>.
\<close>

definition xrsp_send_csd ::
  "ql_xrsp_host \<Rightarrow> byte list \<Rightarrow> int \<Rightarrow> int \<Rightarrow> fault + ql_xrsp_host" where
  "xrsp_send_csd host data index slice_idx =
     (if \<not> slot_ok (QL_IDX_SLICE slice_idx index) then Inl OutOfBounds
      else
        (let write_index = nat (QL_IDX_SLICE slice_idx index)
         in if needs_flush host ! write_index then Inl Blocked
            else if (csd_stream_len host ! write_index + length data) mod 2 ^ 64 < 0x1000000
            then (if csd_stream_len host ! write_index + length data
                       > length (csd_stream host ! write_index)
                  then Inl OutOfBounds
                  else Inr (host\<lparr>
                         csd_stream := (csd_stream host)[write_index :=
                            memcpy_at (csd_stream host ! write_index)
                              (csd_stream_len host ! write_index) data],
                         csd_stream_len := (csd_stream_len host)[write_index :=
                            (csd_stream_len host ! write_index + length data) mod 2 ^ 64]\<rparr>))
            else Inr host))"

definition xrsp_send_idr ::
  "ql_xrsp_host \<Rightarrow> byte list \<Rightarrow> int \<Rightarrow> int \<Rightarrow> fault + ql_xrsp_host" where
  "xrsp_send_idr host data index slice_idx =
     (if \<not> slot_ok (QL_IDX_SLICE slice_idx index) then Inl OutOfBounds
      else
        (let write_index = nat (QL_IDX_SLICE slice_idx index)
         in if needs_flush host ! write_index then Inl Blocked
            else if (idr_stream_len host ! write_index + length data) mod 2 ^ 64 < 0x1000000
            then (if idr_stream_len host ! write_index + length data
                       > length (idr_stream host ! write_index)
                  then Inl OutOfBounds
                  else Inr (host\<lparr>
                         idr_stream := (idr_stream host)[write_index :=
                            memcpy_at (idr_stream host ! write_index)
                              (idr_stream_len host ! write_index) data],
                         idr_stream_len := (idr_stream_len host)[write_index :=
                            (idr_stream_len host ! write_index + length data) mod 2 ^ 64]\<rparr>))
            else Inr host))"

section \<open>Video pipeline: \<open>xrsp_send_video\<close> and the writer thread\<close>

text \<open>
  \<open>csd_len\<close> and \<open>video_len\<close> are the lengths of \<open>csd_dat\<close> and
  \<open>video_dat\<close>. The function reads the clock three times before it stamps
  \<open>tx_started_ns\<close> (two of the readings feed the unused \<open>roundtrip_ns\<close>). The
  event \<open>EvSlice\<close> marks the point where the slice message is handed to the framer.
\<close>

definition xrsp_send_video ::
  "externals \<Rightarrow> ql_xrsp_host \<Rightarrow> int \<Rightarrow> int \<Rightarrow> int \<Rightarrow> int \<Rightarrow> byte list \<Rightarrow> byte list \<Rightarrow> int
     \<Rightarrow> fault + ql_xrsp_host" where
  "xrsp_send_video E host index slice_idx fidx frame_started_ns csd_dat video_dat blit_y_pos =
     (if \<not> slot_ok (QL_IDX_SLICE 0 index) \<or> \<not> slot_ok (QL_IDX_SLICE slice_idx index)
      then Inl OutOfBounds
      else
        (let read_index = nat (QL_IDX_SLICE slice_idx index)
         in if pairing_state host \<noteq> PAIRINGSTATE_PAIRED \<or> \<not> ready_to_send_frames host
            then Inr (host\<lparr>tx_started_ns := (tx_started_ns host)[read_index := 0],
                            tx_done_ns := (tx_done_ns host)[read_index := 0],
                            tx_duration_ns := (tx_duration_ns host)[read_index := 0]\<rparr>)
            else
              (let (t1, host1) = xrsp_ts_ns host;
                   (t2, host2) = xrsp_ts_ns host1;
                   (ts_before, host3) = xrsp_ts_ns host2;
                   host4 = host3\<lparr>tx_started_ns := (tx_started_ns host3)[read_index := ts_before]\<rparr>;
                   bits = (if length csd_dat > 0 then 1 else 0)
                            OR (if slice_idx = num_slices host4 - 1 then 2 else 0);
                   msg = \<lparr>frameIdx = fidx, sliceNum = slice_idx, unk6p1 = bits,
                          csdSize = length csd_dat, videoSize = length video_dat\<rparr>;
                   out = segments_for_output E (PayloadSlice msg);
                   tp = TOPIC_SLICE_0 E + word_of_int slice_idx;
                   should_send = (\<not> (length csd_dat = 0 \<and> \<not> sent_first_frame host4))
               in bind_res
                    (if should_send
                     then bind_res
                            (xrsp_send_to_topic_capnp_segments
                               (host4\<lparr>trace := trace host4 @ [EvSlice msg index frame_started_ns]\<rparr>)
                               tp 0 out)
                            (\<lambda>host5. bind_res
                               (if length csd_dat \<noteq> 0 then xrsp_send_to_topic host5 tp csd_dat
                                else Inr host5)
                               (\<lambda>host6. bind_res (xrsp_send_to_topic host6 tp video_dat)
                                  (\<lambda>host7. Inr (host7\<lparr>sent_first_frame := True\<rparr>))))
                     else Inr host4)
                    (\<lambda>host8.
                       (let (ts_after, host9) = xrsp_ts_ns host8;
                            host10 = host9\<lparr>
                              tx_done_ns := (tx_done_ns host9)[read_index := ts_after],
                              tx_duration_ns := (tx_duration_ns host9)[read_index :=
                                 s64 (ts_after - ts_before)]\<rparr>
                        in xrsp_ripc E (VoidBoolCmd (client_id host10)
                                          ''EnableEyeTrackingForPCLink'') host10)))))"






text \<open>Re-arming the pipeline one second after pairing.\<close>

definition rearm_pipeline :: "ql_xrsp_host \<Rightarrow> ql_xrsp_host" where
  "rearm_pipeline host =
     foldl (\<lambda>h i. h\<lparr>csd_stream_len := (csd_stream_len h)[i := 0],
                     idr_stream_len := (idr_stream_len h)[i := 0],
                     needs_flush := (needs_flush h)[i := False]\<rparr>)
       (host\<lparr>ready_to_send_frames := True, sent_first_frame := False\<rparr>)
       [0..<QL_NUM_SLICES * QL_SWAPCHAIN_DEPTH]"

definition request_video_idk :: "byte list" where
  "request_video_idk =
     [0x00, 0x00, 0x00, 0x00, 0x01, 0x00, 0x00, 0x00, 0x02, 0x00, 0x00, 0x00, 0x00, 0x00, 0x00, 0x00]"








section \<open>Echo: \<open>xrsp_send_ping\<close> and \<open>xrsp_handle_echo\<close>\<close>

text \<open>
  \<open>struct ql_xrsp_echo_payload\<close> and the fields of \<open>struct ql_xrsp_hostinfo_pkt\<close>
  that the handlers read; \<open>echo\<close> is the packet's payload read as an echo payload
  (the cast at the head of \<open>xrsp_handle_echo\<close>).
\<close>

record ql_xrsp_echo_payload =
  org :: int
  recv :: int
  xmt :: int
  offset :: int

record ql_xrsp_hostinfo_pkt =
  message_type :: builtin
  result :: "16 word"
  unk_4 :: "32 word"
  recv_ns :: int
  echo :: ql_xrsp_echo_payload

definition xrsp_send_ping :: "externals \<Rightarrow> ql_xrsp_host \<Rightarrow> fault + ql_xrsp_host" where
  "xrsp_send_ping E host =
     (let (t1, host1) = xrsp_ts_ns host
      in if s64 (t1 - echo_req_sent_ns host1) < 16000000 then Inr host1
         else
           (let (t2, host2) = xrsp_ts_ns host1;
                host3 = host2\<lparr>echo_req_sent_ns := t2\<rparr>;
                request_echo_ping =
                  ql_xrsp_craft_echo E ECHO_PING (echo_idx host3) 0 0
                    (echo_req_sent_ns host3) (ns_offset host3)
            in bind_res (xrsp_send_to_topic host3 (TOPIC_HOSTINFO_ADV E) request_echo_ping)
                 (\<lambda>host4. Inr (host4\<lparr>echo_idx := s32 (echo_idx host4 + 1)\<rparr>))))"

definition xrsp_handle_echo ::
  "externals \<Rightarrow> ql_xrsp_host \<Rightarrow> ql_xrsp_hostinfo_pkt \<Rightarrow> fault + ql_xrsp_host" where
  "xrsp_handle_echo E host pkt =
     (let payload = echo pkt
      in if result pkt AND 1 = 1
         then
           (let host1 = host\<lparr>echo_req_recv_ns := recv payload,
                               echo_resp_sent_ns := xmt payload,
                               echo_resp_recv_ns := recv_ns pkt\<rparr>;
                (now, host2) = xrsp_ts_ns host1;
                host3 = host2\<lparr>echo_req_sent_ns := now\<rparr>;
                calc_ns_offset =
                  drop_bit 1 (s64 (s64 (echo_req_recv_ns host3 - echo_req_sent_ns host3)
                                   + s64 (echo_resp_sent_ns host3 - recv_ns pkt)));
                host4 = (if ns_offset host3 = 0
                         then host3\<lparr>ns_offset := calc_ns_offset\<rparr>
                         else host3\<lparr>ns_offset :=
                                c_div (s64 (ns_offset host3 + calc_ns_offset)) 2\<rparr>)
            in if pairing_state host4 = PAIRINGSTATE_PAIRED then xrsp_send_ping E host4
               else Inr host4)
         else
           (let host1 = host\<lparr>last_xmt := xmt payload\<rparr>;
                host2 = (if offset payload \<noteq> 0
                         then host1\<lparr>ns_offset_from_target := offset payload,
                                     ns_offset := c_div (s64 (ns_offset host1 - offset payload)) 2\<rparr>
                         else host1);
                (send_xmt, host3) = xrsp_ts_ns host2;
                request_echo_ping =
                  ql_xrsp_craft_echo E ECHO_PONG (uint (unk_4 pkt)) (last_xmt host3) (recv_ns pkt)
                    send_xmt (ns_offset host3)
            in bind_res (xrsp_send_to_topic host3 (TOPIC_HOSTINFO_ADV E) request_echo_ping)
                 (\<lambda>host4. if pairing_state host4 = PAIRINGSTATE_PAIRED
                            then xrsp_send_ping E host4 else Inr host4)))"

section \<open>Handshake: the replies and \<open>xrsp_handle_hostinfo_adv\<close>\<close>










definition xrsp_finish_pairing_1 :: "externals \<Rightarrow> ql_xrsp_host \<Rightarrow> fault + ql_xrsp_host" where
  "xrsp_finish_pairing_1 E host =
     bind_res (xrsp_send_ping E host)
       (\<lambda>host1. xrsp_send_to_topic_capnp_wrapped host1 (TOPIC_VIDEO E) 0 request_video_idk)"





text \<open>The bytes of a \<open>struct cmd_pkt_idk\<close>: a \<open>uint64_t\<close> and six \<open>uint32_t\<close>.\<close>

definition cmd_pkt_idk :: "nat \<Rightarrow> 32 word \<Rightarrow> nat \<Rightarrow> nat \<Rightarrow> nat \<Rightarrow> nat \<Rightarrow> nat \<Rightarrow> byte list" where
  "cmd_pkt_idk a cmd_idx b c d e f =
     le_bytes 8 a @ u32_bytes cmd_idx @ le_bytes 4 b @ le_bytes 4 c @ le_bytes 4 d
       @ le_bytes 4 e @ le_bytes 4 f"

definition xrsp_send_audio_control ::
  "externals \<Rightarrow> nat \<Rightarrow> nat \<Rightarrow> nat \<Rightarrow> ql_xrsp_host \<Rightarrow> fault + ql_xrsp_host" where
  "xrsp_send_audio_control E a b c host =
     xrsp_send_to_topic_capnp_segments host (TOPIC_AUDIO_CONTROL E) 0
       (segments_for_output E (PayloadAudioControl a b c))"

definition xrsp_send_input_control ::
  "externals \<Rightarrow> nat \<Rightarrow> nat \<Rightarrow> nat \<Rightarrow> ql_xrsp_host \<Rightarrow> fault + ql_xrsp_host" where
  "xrsp_send_input_control E a b c host =
     xrsp_send_to_topic_capnp_segments host (TOPIC_INPUT_CONTROL E) 0
       (segments_for_output E (PayloadAudioControl a b c))"

definition xrsp_send_mesh :: "externals \<Rightarrow> ql_xrsp_host \<Rightarrow> fault + ql_xrsp_host" where
  "xrsp_send_mesh E host =
     bind_res (xrsp_send_to_topic_capnp_segments host (TOPIC_MESH E) 2
                 (segments_for_output E PayloadRectifyMesh))
       (\<lambda>host1. Inr (host1\<lparr>sent_mesh := True\<rparr>))"

definition xrsp_finish_pairing_2 :: "externals \<Rightarrow> ql_xrsp_host \<Rightarrow> fault + ql_xrsp_host" where
  "xrsp_finish_pairing_2 E host =
     seq_res
       [xrsp_send_ping E,
        xrsp_send_audio_control E 1 1 0,
        (\<lambda>h. xrsp_send_to_topic h (TOPIC_COMMAND E)
                (cmd_pkt_idk 0x0005EC94E91B9D4F (COMMAND_TOGGLE_CHEMX E) 0 0 0 0 0)),
        (\<lambda>h. xrsp_send_to_topic h (TOPIC_COMMAND E)
                (cmd_pkt_idk 0x0005EC94E91B9D83 (COMMAND_TOGGLE_ASW E) 0 0 0 0 0)),
        (\<lambda>h. xrsp_send_to_topic h (TOPIC_COMMAND E)
                (cmd_pkt_idk 0x0005EC94E91B9D83 (COMMAND_DROP_FRAMES_STATE E) 0 1 0 0 0)),
        xrsp_send_input_control E 1 1 0,
        xrsp_send_input_control E 2 1 0,
        (\<lambda>h. xrsp_ripc E (EnsureServiceStarted (client_id h) ''com.oculus.systemdriver''
                            ''com.oculus.vrruntimeservice.VrRuntimeService'') h),
        xrsp_ripc E (ConnectToRemoteServer 1 ''com.oculus.systemdriver''
                       ''com.oculus.vrruntimeservice'' ''RuntimeServiceServer''),
        (\<lambda>h. xrsp_ripc E (EnsureServiceStarted (client_id h + 1) ''com.oculus.bodyapiservice''
                            ''com.oculus.bodyapiservice.BodyApiService'') h),
        xrsp_ripc E (ConnectToRemoteServer 2 ''com.oculus.bodyapiservice''
                       ''com.oculus.bodyapiservice'' ''BodyApiServiceServer''),
        (\<lambda>h. xrsp_ripc E (EnsureServiceStarted (client_id h + 2) ''com.oculus.bodyapiservice''
                            ''com.oculus.eyetrackingservice.EyeTrackingService'') h),
        xrsp_ripc E (ConnectToRemoteServer 3 ''com.oculus.bodyapiservice''
                       ''com.oculus.eyetrackingservice'' ''EyeTrackingServiceServer''),
        xrsp_send_mesh E]
       host"


section \<open>Opening and resetting the device: \<open>ql_xrsp_usb_init\<close>\<close>

text \<open>
  What the libusb calls of \<open>ql_xrsp_usb_init\<close> other than the opening of the device
  return: \<open>libusb_reset_device\<close>, \<open>libusb_claim_interface\<close>, whether
  \<open>libusb_get_active_config_descriptor\<close> gives a descriptor, and
  \<open>libusb_get_device_speed\<close>.
\<close>

record usb_env =
  reset_ret :: int
  claim_ret :: int
  config_ok :: bool
  device_speed :: int

definition usb_open_device :: "ql_xrsp_host \<Rightarrow> ql_xrsp_host" where
  "usb_open_device host =
     host\<lparr>dev := usb_open host (n_open host), n_open := n_open host + 1,
          trace := trace host @ [EvUsbOpen (usb_open host (n_open host))]\<rparr>"

text \<open>The loop \<open>for (int i = 0; i < 10; i++)\<close>, with \<open>n\<close> rounds left.\<close>

fun reopen_loop :: "nat \<Rightarrow> ql_xrsp_host \<Rightarrow> ql_xrsp_host" where
  "reopen_loop 0 host = host"
| "reopen_loop (Suc n) host =
     (let host1 = usb_open_device host
      in if dev host1 then host1
         else reopen_loop n (host1\<lparr>trace := trace host1 @ [EvSleepMs 500]\<rparr>))"

definition usb_init_cleanup :: "ql_xrsp_host \<Rightarrow> fault + int \<times> ql_xrsp_host" where
  "usb_init_cleanup host =
     Inr (- 1, host\<lparr>usb_mutex := False, trace := trace host @ [EvUnlock]\<rparr>)"

text \<open>
  The rest of the function once the device is open: the interface is claimed, the
  endpoints and the speed are read, and the transport is marked valid. The endpoint
  numbers are not modelled.
\<close>

definition usb_init_claim :: "usb_env \<Rightarrow> ql_xrsp_host \<Rightarrow> fault + int \<times> ql_xrsp_host" where
  "usb_init_claim U host =
     (if claim_ret U < 0 then usb_init_cleanup (host\<lparr>trace := trace host @ [EvUsbReset]\<rparr>)
      else if \<not> config_ok U then usb_init_cleanup host
      else
        (let host1 = host\<lparr>usb_slow_cable :=
                             (device_speed U \<noteq> LIBUSB_SPEED_SUPER
                              \<and> device_speed U \<noteq> LIBUSB_SPEED_SUPER_PLUS),
                           usb_speed := device_speed U\<rparr>
         in Inr (0, host1\<lparr>usb_valid := True, usb_mutex := False,
                            trace := trace host1 @ [EvUnlock]\<rparr>)))"

definition ql_xrsp_usb_init ::
  "usb_env \<Rightarrow> ql_xrsp_host \<Rightarrow> bool \<Rightarrow> fault + int \<times> ql_xrsp_host" where
  "ql_xrsp_usb_init U host do_reset =
     (if usb_mutex host then Inl Deadlock
      else
        (let host1 = host\<lparr>usb_mutex := True, trace := trace host @ [EvLock]\<rparr>;
             host2 = (if dev host1 then host1\<lparr>trace := trace host1 @ [EvUsbClose]\<rparr> else host1);
             host3 = host2\<lparr>usb_speed := LIBUSB_SPEED_LOW, usb_valid := False,
                           pairing_state := PAIRINGSTATE_WAIT_FIRST,
                           ready_to_send_frames := False, sent_first_frame := False\<rparr>;
             host4 = usb_open_device host3
         in if \<not> dev host4 then usb_init_cleanup host4
            else if do_reset
            then
              (let host5 = host4\<lparr>trace := trace host4 @ [EvUsbReset]\<rparr>
               in if reset_ret U \<noteq> LIBUSB_ERROR_NOT_FOUND \<and> reset_ret U \<noteq> LIBUSB_SUCCESS
                  then usb_init_cleanup host5
                  else
                    (let host6 = (if reset_ret U = LIBUSB_ERROR_NOT_FOUND then host5
                                  else host5\<lparr>trace := trace host5 @ [EvUsbClose]\<rparr>);
                         host7 = reopen_loop 10 host6
                     in if \<not> dev host7 then usb_init_cleanup host7
                        else usb_init_claim U host7))
            else usb_init_claim U host4))"

section \<open>Closed forms used in the proofs about the framer\<close>

text \<open>
  The number of padding bytes \<open>xrsp_send_to_topic_raw\<close> appends to an n-byte
  payload: what 4-byte alignment needs, and 4 more when the frame would otherwise end
  4 bytes before a 1024-byte boundary.
\<close>

definition pad_len :: "nat \<Rightarrow> nat" where
  "pad_len n = (let a = (4 - n mod 4) mod 4 in if (n + a + 8) mod 1024 = 1020 then a + 4 else a)"

text \<open>The data frame and the filler frame of \<open>topic_msg\<close>, and the number of bytes
  by which the data frame exceeds a multiple of 1024.\<close>

definition topic_data_frame :: "8 word \<Rightarrow> byte list \<Rightarrow> 16 word \<Rightarrow> topic_frame" where
  "topic_data_frame tp data incr =
     \<lparr>header = \<lparr> version_maybe = 0,
                  has_alignment_padding = (pad_len (length data) \<noteq> 0),
                  packet_version_is_internal = True,
                  packet_version_number = 0,
                  topic = tp,
                  unk_14_15 = 0,
                  num_words = of_nat ((length data + pad_len (length data)) div 4 + 1),
                  sequence_num = incr,
                  pad = 0 \<rparr>,
      payload = data @ (if pad_len (length data) = 0 then []
                        else replicate (pad_len (length data) - 1) 0xDE
                             @ [of_nat (pad_len (length data))])\<rparr>"

definition topic_filler_frame :: "16 word \<Rightarrow> nat \<Rightarrow> topic_frame" where
  "topic_filler_frame incr k =
     \<lparr>header = \<lparr> version_maybe = 0,
                  has_alignment_padding = False,
                  packet_version_is_internal = True,
                  packet_version_number = 0,
                  topic = 0,
                  unk_14_15 = 0,
                  num_words = of_nat (k div 4 + 1),
                  sequence_num = incr,
                  pad = 0 \<rparr>,
      payload = replicate k 0\<rparr>"

definition msg_rem :: "nat \<Rightarrow> nat" where
  "msg_rem n = (n + pad_len n + 8) mod 1024"

section \<open>Notions used to state the claims about fragmentation\<close>

text \<open>
  Following the spec's words ("slices them into \<open>\<le> 0x3FFF8\<close>-byte chunks"): the
  consecutive pieces of at most \<open>k\<close> elements of a list.
\<close>

function chunks_of :: "nat \<Rightarrow> 'a list \<Rightarrow> 'a list list" where
  "chunks_of k xs = (if k = 0 \<or> xs = [] then [] else take k xs # chunks_of k (drop k xs))"
  by pat_completeness auto
termination
  by (relation "measure (\<lambda>(k, xs). length xs)") auto

declare chunks_of.simps [simp del]

text \<open>The buffers built for a list of chunks, with consecutive sequence numbers.\<close>

fun chunk_msgs :: "8 word \<Rightarrow> 16 word \<Rightarrow> byte list list \<Rightarrow> topic_frame list list" where
  "chunk_msgs tp incr [] = []"
| "chunk_msgs tp incr (c # cs) = topic_msg tp c incr # chunk_msgs tp (incr + 1) cs"

text \<open>
  Modelled from the spec: what a receiver takes as the data of a frame ("when
  \<open>has_alignment_padding\<close> is set, the last byte of the payload gives the pad
  length"); the receiving code is not among the sources.
\<close>

definition frame_data :: "topic_frame \<Rightarrow> byte list" where
  "frame_data f =
     (if has_alignment_padding (header f)
      then take (length (payload f) - unat (last (payload f))) (payload f)
      else payload f)"

text \<open>The topic frames handed to the transport, in order, among a list of events.\<close>

fun usb_frames :: "event list \<Rightarrow> topic_frame list" where
  "usb_frames [] = []"
| "usb_frames (EvSendUsb m # es) = m @ usb_frames es"
| "usb_frames (e # es) = usb_frames es"

section \<open>Invariants of the pipeline's arrays\<close>

text \<open>
  The arrays of the host have one entry per slot and each stream buffer has the
  0x1000000 bytes \<open>ql_xrsp_host_create\<close> allocates.
\<close>

definition pipeline_wf :: "ql_xrsp_host \<Rightarrow> bool" where
  "pipeline_wf host =
     (length (needs_flush host) = slots \<and>
      length (csd_stream host) = slots \<and> length (idr_stream host) = slots \<and>
      length (csd_stream_len host) = slots \<and> length (idr_stream_len host) = slots \<and>
      length (stream_started_ns host) = slots \<and>
      (\<forall>i < slots. length (csd_stream host ! i) = 0x1000000
                   \<and> length (idr_stream host ! i) = 0x1000000))"

text \<open>Every slot's two length counters are below 0x1000000.\<close>

definition stream_lens_bounded :: "ql_xrsp_host \<Rightarrow> bool" where
  "stream_lens_bounded host =
     (\<forall>i < slots. csd_stream_len host ! i < 0x1000000 \<and> idr_stream_len host ! i < 0x1000000)"



section \<open>Notions used to state what sending changes\<close>

text \<open>The slice messages among a list of events, in order.\<close>

fun slice_events :: "event list \<Rightarrow> payload_slice list" where
  "slice_events [] = []"
| "slice_events (EvSlice m index ns # es) = m # slice_events es"
| "slice_events (e # es) = slice_events es"

text \<open>Events of the framer and the transport lock.\<close>

fun is_link_event :: "event \<Rightarrow> bool" where
  "is_link_event EvLock = True"
| "is_link_event EvUnlock = True"
| "is_link_event (EvSendUsb m) = True"
| "is_link_event e = False"

text \<open>
  From the state's next OUT transfer on, no transfer fails with \<open>NO_DEVICE\<close> or
  \<open>TIMEOUT\<close>.
\<close>

definition no_out_failure :: "ql_xrsp_host \<Rightarrow> bool" where
  "no_out_failure host =
     (\<forall>n \<ge> n_out host. fst (bulk_out host n) \<noteq> LIBUSB_ERROR_NO_DEVICE
                         \<and> fst (bulk_out host n) \<noteq> LIBUSB_ERROR_TIMEOUT)"

text \<open>
  \<open>only_sent h h'\<close>: \<open>h'\<close> differs from \<open>h\<close> only in what sending on the
  transport can change. The fields other than the six named are equal; the trace has
  grown by framer and lock events; the count of transfers has not gone down; the pairing
  state is the old one or \<open>WAIT_FIRST\<close>, and it and \<open>usb_valid\<close> are the old
  ones when no transfer fails.
\<close>

definition only_sent :: "ql_xrsp_host \<Rightarrow> ql_xrsp_host \<Rightarrow> bool" where
  "only_sent h h' =
     (h' = h\<lparr>usb_valid := usb_valid h', pairing_state := pairing_state h',
             usb_mutex := usb_mutex h', increment := increment h',
             trace := trace h', n_out := n_out h'\<rparr> \<and>
      n_out h \<le> n_out h' \<and>
      (\<exists>evs. trace h' = trace h @ evs \<and> list_all is_link_event evs) \<and>
      (pairing_state h' = pairing_state h \<or> pairing_state h' = PAIRINGSTATE_WAIT_FIRST) \<and>
      (no_out_failure h \<longrightarrow> pairing_state h' = pairing_state h \<and> usb_valid h' = usb_valid h))"

text \<open>
  What the proofs about the video path assume of the RPC layer, whose code is not among the
  sources: a call that returns leaves \<open>sent_first_frame\<close> as it was and sends no slice
  message.
\<close>

definition ripc_keeps_video :: "externals \<Rightarrow> bool" where
  "ripc_keeps_video E =
     (\<forall>c h h'. xrsp_ripc E c h = Inr h' \<longrightarrow>
        sent_first_frame h' = sent_first_frame h \<and>
        (\<exists>evs. trace h' = trace h @ evs \<and> slice_events evs = []))"

text \<open>
  A call of \<open>xrsp_send_video\<close> as the writer makes it: for a frame index, a slice, a
  frame counter, a start time and the slot's CSD and IDR bytes.
\<close>

fun send_video_call ::
  "externals \<Rightarrow> int \<times> int \<times> int \<times> int \<times> byte list \<times> byte list \<Rightarrow> ql_xrsp_host
     \<Rightarrow> fault + ql_xrsp_host" where
  "send_video_call E (index, slice_idx, fidx, started_ns, csd_dat, video_dat) host =
     xrsp_send_video E host index slice_idx fidx started_ns csd_dat video_dat 0"

section \<open>Notions used to state what reopening the device does\<close>

text \<open>\<open>k\<close> failed attempts to open the device, each followed by a sleep of 500 ms.\<close>

definition failed_opens :: "nat \<Rightarrow> event list" where
  "failed_opens k = concat (replicate k [EvUsbOpen False, EvSleepMs 500])"

text \<open>
  The events of \<open>ql_xrsp_usb_init\<close> once the device is open: a device reset when the
  interface cannot be claimed, then the unlock.
\<close>

definition claim_events :: "usb_env \<Rightarrow> event list" where
  "claim_events U = (if claim_ret U < 0 then [EvUsbReset, EvUnlock] else [EvUnlock])"

text \<open>The close that precedes the first open, when a handle is held.\<close>

definition close_events :: "ql_xrsp_host \<Rightarrow> event list" where
  "close_events host = (if dev host then [EvUsbClose] else [])"

section \<open>Notions used to state the order in which the writer sends frames\<close>











section \<open>Notions used to state the handshake table\<close>

text \<open>
  The table of the specification: the pairing state after a handshake message of the
  given type has been handled in the given state.
\<close>

fun spec_next_state :: "pairing \<Rightarrow> builtin \<Rightarrow> pairing" where
  "spec_next_state PAIRINGSTATE_WAIT_FIRST BUILTIN_PAIRING_ACK = PAIRINGSTATE_WAIT_SECOND"
| "spec_next_state PAIRINGSTATE_WAIT_SECOND BUILTIN_INVITE = PAIRINGSTATE_PAIRING"
| "spec_next_state PAIRINGSTATE_PAIRING BUILTIN_INVITE = PAIRINGSTATE_PAIRING"
| "spec_next_state PAIRINGSTATE_WAIT_SECOND BUILTIN_PAIRING_ACK = PAIRINGSTATE_PAIRED"
| "spec_next_state PAIRINGSTATE_PAIRING BUILTIN_PAIRING_ACK = PAIRINGSTATE_PAIRED"
| "spec_next_state s m = s"

text \<open>
  \<open>keeps_pairing h h'\<close>: the pairing state of \<open>h'\<close> is that of \<open>h\<close> or
  \<open>WAIT_FIRST\<close>; and if no transfer fails from \<open>h\<close> on, it is that of \<open>h\<close> and
  no transfer fails from \<open>h'\<close> on.
\<close>

definition keeps_pairing :: "ql_xrsp_host \<Rightarrow> ql_xrsp_host \<Rightarrow> bool" where
  "keeps_pairing h h' =
     ((pairing_state h' = pairing_state h \<or> pairing_state h' = PAIRINGSTATE_WAIT_FIRST) \<and>
      (no_out_failure h \<longrightarrow> pairing_state h' = pairing_state h \<and> no_out_failure h'))"

text \<open>
  What the handshake needs of the functions outside the listed sources: the RPC layer
  and the nested read of \<open>xrsp_init_session_2\<close> keep the pairing state in this
  sense.
\<close>

definition externals_keep_pairing :: "externals \<Rightarrow> bool" where
  "externals_keep_pairing E =
     ((\<forall>c h h'. xrsp_ripc E c h = Inr h' \<longrightarrow> keeps_pairing h h') \<and>
      (\<forall>h h'. xrsp_read_usb E h = Inr h' \<longrightarrow> keeps_pairing h h'))"


section \<open>A concrete host for the witnesses\<close>

text \<open>
  The state in which \<open>ql_xrsp_host_create\<close> leaves the struct when the device opens
  at once: everything zero but what the function assigns. The buffers are filled with
  zeros here. The transport's transfers all succeed, the clock starts at \<open>t0\<close> and
  advances by 1000 ns with each reading, and the device can always be opened.
\<close>

definition example_host :: "int \<Rightarrow> ql_xrsp_host" where
  "example_host t0 =
     \<lparr> dev = True, usb_valid = True, usb_slow_cable = False, usb_speed = LIBUSB_SPEED_SUPER,
       client_id = 0x4a60dcca, increment = 0, pairing_state = PAIRINGSTATE_WAIT_FIRST,
       echo_idx = 1, ns_offset = 0, ns_offset_from_target = 0,
       echo_req_sent_ns = 0, echo_req_recv_ns = 0, echo_resp_sent_ns = 0,
       echo_resp_recv_ns = 0, last_xmt = 0,
       num_slices = int QL_NUM_SLICES, frame_sent_ns = 0, paired_ns = 2 * t0, last_read_ns = 0,
       usb_mutex = False, ready_to_send_frames = False, sent_first_frame = False,
       frame_idx = 0,
       needs_flush = replicate slots False,
       csd_stream = replicate slots (replicate 0x1000000 0),
       idr_stream = replicate slots (replicate 0x1000000 0),
       csd_stream_len = replicate slots 0, idr_stream_len = replicate slots 0,
       stream_started_ns = replicate slots 0, stream_pose_ns = replicate slots 0,
       encode_started_ns = replicate slots 0, encode_done_ns = replicate slots 0,
       encode_duration_ns = replicate slots 0, tx_started_ns = replicate slots 0,
       tx_done_ns = replicate slots 0, tx_duration_ns = replicate slots 0,
       sent_mesh = False, is_inactive = False, hmd_attached = True, hmd_pose_ns = 0,
       trace = [],
       bulk_out = (\<lambda>n. (LIBUSB_SUCCESS, 1)), n_out = 0,
       mono_ns = (\<lambda>n. t0 + 1000 * int n), n_clock = 0,
       usb_open = (\<lambda>n. True), n_open = 0 \<rparr>"

text \<open>
  Externals for the witnesses: topics numbered as in the protocol, encoders that produce
  fixed bytes, an RPC layer and a nested reader that do nothing.
\<close>

definition example_externals :: externals where
  "example_externals =
     \<lparr> TOPIC_HOSTINFO_ADV = 1, TOPIC_COMMAND = 2, TOPIC_VIDEO = 5, TOPIC_MESH = 4,
       TOPIC_AUDIO_CONTROL = 0x1A, TOPIC_INPUT_CONTROL = 0x1C, TOPIC_SLICE_0 = 0x0A,
       COMMAND_TOGGLE_CHEMX = 1, COMMAND_TOGGLE_ASW = 2, COMMAND_DROP_FRAMES_STATE = 3,
       ql_xrsp_craft_capnp = (\<lambda>m r u p. [0, 0, 0, 0, 0, 0, 0, 0] @ p),
       ql_xrsp_craft_echo = (\<lambda>k i a b c d. [0, 0, 0, 0, 0, 0, 0, 0]),
       segments_for_output = (\<lambda>m. [[0, 0, 0, 0, 0, 0, 0, 0]]),
       xrsp_ripc = (\<lambda>c h. Inr h),
       xrsp_read_usb = (\<lambda>h. Inr h),
       hmd_fps = 72, encoding_type = 0 \<rparr>"


text \<open>A device on which every libusb call of \<open>ql_xrsp_usb_init\<close> succeeds.\<close>

definition example_usb_env :: usb_env where
  "example_usb_env =
     \<lparr> reset_ret = LIBUSB_SUCCESS, claim_ret = 0, config_ok = True,
       device_speed = LIBUSB_SPEED_SUPER \<rparr>"

section \<open>The framer's arithmetic\<close>

lemma and_3FF: "(x::int) AND 0x3FF = x mod 1024"
proof -
  have "(0x3FF::int) = mask 10" by (simp add: mask_eq_exp_minus_1)
  then show ?thesis by (simp only: flip: take_bit_eq_mask) (simp add: take_bit_eq_mod)
qed

lemma drop_bit2: "drop_bit 2 (x::int) = x div 4" by (simp add: drop_bit_eq_div)
lemma push_bit2: "push_bit 2 (x::int) = x * 4" by (simp add: push_bit_eq_mult)

lemma align0_eq: "push_bit 2 (drop_bit 2 (4 + int n)) - int n = 4 - int (n mod 4)"
  unfolding push_bit2 drop_bit2 by (simp add: zmod_int) presburger

lemma align1_eq:
  "(if push_bit 2 (drop_bit 2 (4 + int n)) - int n = 4 then 0
    else push_bit 2 (drop_bit 2 (4 + int n)) - int n) = int ((4 - n mod 4) mod 4)"
proof (cases "n mod 4 = 0")
  case True
  then show ?thesis unfolding align0_eq by simp
next
  case False
  have "n mod 4 < 4" by simp
  with False have "(4 - n mod 4) mod 4 = 4 - n mod 4" by simp
  moreover have "int (4 - n mod 4) = 4 - int (n mod 4)" by (simp add: of_nat_diff)
  ultimately show ?thesis unfolding align0_eq using False by simp
qed

lemma fill_check_eq:
  "0x400 - ((int m + 0x400) AND 0x3FF) = 1024 - int (m mod 1024)"
  unfolding and_3FF by (simp add: zmod_int)

lemma a1_aligned: "(n + (4 - n mod 4) mod 4) mod 4 = (0::nat)"
proof -
  have "(n + (4 - n mod 4) mod 4) mod 4 = (n mod 4 + (4 - n mod 4) mod 4) mod 4"
    by (simp add: mod_add_left_eq)
  moreover have "n mod 4 < 4" by simp
  then have "n mod 4 = 0 \<or> n mod 4 = 1 \<or> n mod 4 = 2 \<or> n mod 4 = 3" by arith
  ultimately show ?thesis by auto
qed

lemma align_up_eq:
  "(let data_size = int n;
        align0 = push_bit 2 (drop_bit 2 (4 + data_size)) - data_size;
        align1 = (if align0 = 4 then 0 else align0);
        msg_size0 = data_size + align1 + sizeof_xrsp_topic_header;
        to_fill_check = 0x400 - ((msg_size0 + 0x400) AND 0x3FF)
    in (if to_fill_check \<ge> 0 \<and> to_fill_check < 8 then align1 + to_fill_check else align1))
   = int (pad_len n)"
proof -
  define a where "a = (4 - n mod 4) mod 4"
  define r where "r = (n + a + 8) mod 1024"
  have "(n + a) mod 4 = 0" unfolding a_def by (rule a1_aligned)
  then have a4: "(n + a + 8) mod 4 = 0" by presburger
  have m: "int n + int a + 8 = int (n + a + 8)" by simp
  have fc: "0x400 - ((int n + int a + 8 + 0x400) AND 0x3FF) = 1024 - int r"
    unfolding m r_def by (rule fill_check_eq)
  have lt: "r < 1024" unfolding r_def by simp
  have r4: "r mod 4 = 0"
    unfolding r_def using a4 by (simp add: mod_mod_cancel)
  have c: "(1024 - int r < 8) = (r = 1020)"
    using r4 lt by presburger
  have c4: "r = 1020 \<Longrightarrow> 1024 - int r = 4" by simp
  have ge: "0 \<le> 1024 - int r" using lt by simp
  show ?thesis
    unfolding Let_def align1_eq sizeof_xrsp_topic_header_def a_def[symmetric] fc pad_len_def
      r_def[symmetric]
    using c c4 ge by auto
qed

lemma pad_len_le: "pad_len n \<le> 7"
proof -
  define a where "a = (4 - n mod 4) mod 4"
  have "a < 4" unfolding a_def by simp
  then show ?thesis unfolding pad_len_def Let_def a_def[symmetric] by auto
qed

lemma pad_len_aligned: "(n + pad_len n) mod 4 = 0"
proof -
  have a: "(n + (4 - n mod 4) mod 4) mod 4 = 0" by (rule a1_aligned)
  have "(n + ((4 - n mod 4) mod 4 + 4)) mod 4 = (n + (4 - n mod 4) mod 4) mod 4"
    by (metis add.assoc mod_add_self2)
  with a show ?thesis unfolding pad_len_def Let_def by simp
qed

lemma msg_rem_not_1020: "msg_rem n \<noteq> 1020"
proof -
  define a where "a = (4 - n mod 4) mod 4"
  define x where "x = n + a + 8"
  have step: "(x + 4) mod 1024 = (x mod 1024 + 4) mod 1024"
    by (simp add: mod_add_left_eq)
  have pl: "n + pad_len n + 8 = (if x mod 1024 = 1020 then x + 4 else x)"
    unfolding pad_len_def Let_def a_def[symmetric] x_def by simp
  show ?thesis
  proof (cases "x mod 1024 = 1020")
    case True
    then have "(x + 4) mod 1024 = 0" unfolding step by simp
    with True show ?thesis unfolding msg_rem_def pl by simp
  next
    case False
    then show ?thesis unfolding msg_rem_def pl by simp
  qed
qed

lemma msg_rem_aligned: "msg_rem n mod 4 = 0"
proof -
  have "(n + pad_len n + 8) mod 4 = ((n + pad_len n) mod 4 + 8) mod 4"
    by (simp add: mod_add_left_eq)
  then have "(n + pad_len n + 8) mod 4 = 0" by (simp add: pad_len_aligned)
  then show ?thesis unfolding msg_rem_def by (simp add: mod_mod_cancel)
qed

lemma msg_rem_le: "msg_rem n \<le> 1016"
proof -
  have "msg_rem n < 1024" unfolding msg_rem_def by simp
  moreover note msg_rem_aligned [of n] msg_rem_not_1020 [of n]
  ultimately show ?thesis by presburger
qed

lemma to_fill_eq:
  "0x400 - ((int n + int (pad_len n) + sizeof_xrsp_topic_header + 0x400) AND 0x3FF) - 8
     = 1016 - int (msg_rem n)"
proof -
  have "int n + int (pad_len n) + sizeof_xrsp_topic_header = int (n + pad_len n + 8)"
    by (simp add: sizeof_xrsp_topic_header_def)
  then show ?thesis
    using fill_check_eq [of "n + pad_len n + 8"] by (simp add: msg_rem_def)
qed

lemma topic_msg_eq:
  "topic_msg tp data incr =
     (if msg_rem (length data) = 0 then [topic_data_frame tp data incr]
      else [topic_data_frame tp data incr,
            topic_filler_frame incr (1016 - msg_rem (length data))])"
proof -
  let ?n = "length data"
  have le: "msg_rem ?n \<le> 1016" by (rule msg_rem_le)
  have cond: "(1016 - int (msg_rem ?n) < 0x3f8 \<and> 1016 - int (msg_rem ?n) \<ge> 0)
                = (msg_rem ?n \<noteq> 0)"
    using le by auto
  have nw: "word_of_int (drop_bit 2 (int ?n + int (pad_len ?n)) + 1)
              = (of_nat ((?n + pad_len ?n) div 4 + 1) :: 16 word)"
  proof -
    have "drop_bit 2 (int ?n + int (pad_len ?n)) + 1 = int ((?n + pad_len ?n) div 4 + 1)"
      unfolding drop_bit2 by (simp add: zdiv_int)
    then show ?thesis by (simp only: of_int_of_nat_eq)
  qed
  have pl: "(if int (pad_len ?n) \<noteq> 0
             then (if int (pad_len ?n) > 1 then replicate (nat (int (pad_len ?n) - 1)) 0xDE else [])
                  @ [word_of_int (int (pad_len ?n))]
             else ([] :: byte list))
            = (if pad_len ?n = 0 then []
               else replicate (pad_len ?n - 1) 0xDE @ [of_nat (pad_len ?n)])"
    by (auto simp: nat_diff_distrib' not_less)
  have fw: "word_of_int (drop_bit 2 (1016 - int (msg_rem ?n)) + 1)
              = (of_nat ((1016 - msg_rem ?n) div 4 + 1) :: 16 word)"
  proof -
    have e: "1016 - int (msg_rem ?n) = int (1016 - msg_rem ?n)" using le by simp
    have "drop_bit 2 (int (1016 - msg_rem ?n)) + 1 = int ((1016 - msg_rem ?n) div 4 + 1)"
      unfolding drop_bit2 by (simp add: zdiv_int)
    then show ?thesis unfolding e by (simp only: of_int_of_nat_eq)
  qed
  have fr: "replicate (nat (1016 - int (msg_rem ?n))) (0::byte) = replicate (1016 - msg_rem ?n) 0"
    using le by (simp add: nat_diff_distrib')
  show ?thesis
    unfolding topic_msg_def Let_def align_up_eq[unfolded Let_def] to_fill_eq cond nw pl fw fr
      topic_data_frame_def topic_filler_frame_def
    by simp
qed

section \<open>Alignment padding (C5)\<close>

lemma pad_len_zero_iff: "pad_len n = 0 \<longleftrightarrow> n mod 4 = 0 \<and> (n + 8) mod 1024 \<noteq> 1020"
proof (cases "n mod 4 = 0")
  case True
  then show ?thesis unfolding pad_len_def Let_def by simp
next
  case False
  have "n mod 4 < 4" by simp
  with False have "(4 - n mod 4) mod 4 = 4 - n mod 4" by simp
  with False \<open>n mod 4 < 4\<close> have "(4 - n mod 4) mod 4 \<noteq> 0" by simp
  with False show ?thesis unfolding pad_len_def Let_def by simp
qed

lemma hd_topic_msg: "hd (topic_msg tp data incr) = topic_data_frame tp data incr"
  unfolding topic_msg_eq by simp

lemma payload_data_frame:
  "payload (topic_data_frame tp data incr) =
     data @ (if pad_len (length data) = 0 then []
             else replicate (pad_len (length data) - 1) 0xDE @ [of_nat (pad_len (length data))])"
  unfolding topic_data_frame_def by simp

lemma unat_pad_byte: "unat (of_nat (pad_len n) :: byte) = pad_len n"
proof -
  have "pad_len n \<le> 7" by (rule pad_len_le)
  then have "pad_len n < 2 ^ 8" by simp
  then show ?thesis by (simp add: unat_of_nat take_bit_nat_eq_self)
qed

text \<open>
  Claim C5, as amended. For the data frame built from an n-byte payload: the payload
  starts with the n bytes; \<open>has_alignment_padding\<close> is set exactly when n is not a
  multiple of 4 or n + 8 is 1020 modulo 1024 (the frame would end 4 bytes before a
  1024-byte boundary); when it is set, the final payload byte is the pad length
  \<open>pad_len n\<close>, which lies between 1 and 7, the payload length minus it is n, and
  every pad byte before the final one is 0xDE; when it is not set the payload is the
  n bytes. \<open>xrsp_send_to_topic_raw\<close> hands exactly this buffer to the transport.
\<close>

theorem topic_frame_padding:
  "length data \<le> 0x3FFF8 \<Longrightarrow>
   (let f = hd (topic_msg tp data incr); p = payload f; n = length data in
      trace (xrsp_send_to_topic_raw host tp data)
        = trace host @ [EvSendUsb (topic_msg tp data (increment host))] \<and>
      take n p = data \<and>
      (has_alignment_padding (header f) \<longleftrightarrow> (n mod 4 \<noteq> 0 \<or> (n + 8) mod 1024 = 1020)) \<and>
      (has_alignment_padding (header f) \<longrightarrow>
          p \<noteq> [] \<and> unat (last p) = pad_len n \<and> 1 \<le> pad_len n \<and> pad_len n \<le> 7 \<and>
          length p - unat (last p) = n \<and>
          (\<forall>i. n \<le> i \<and> i < length p - 1 \<longrightarrow> p ! i = 0xDE)) \<and>
      (\<not> has_alignment_padding (header f) \<longrightarrow> p = data))"
proof -
  let ?n = "length data"
  let ?f = "topic_data_frame tp data incr"
  have tr: "trace (xrsp_send_to_topic_raw host tp data)
              = trace host @ [EvSendUsb (topic_msg tp data (increment host))]"
    unfolding xrsp_send_to_topic_raw_def xrsp_send_usb_def Let_def
    by (simp split: prod.splits)
  have flag: "has_alignment_padding (header ?f) = (pad_len ?n \<noteq> 0)"
    unfolding topic_data_frame_def by simp
  have tk: "take ?n (payload ?f) = data" unfolding payload_data_frame by simp
  have le: "pad_len ?n \<le> 7" by (rule pad_len_le)
  have padded: "pad_len ?n \<noteq> 0 \<Longrightarrow>
      payload ?f \<noteq> [] \<and> unat (last (payload ?f)) = pad_len ?n \<and> 1 \<le> pad_len ?n \<and>
      length (payload ?f) - unat (last (payload ?f)) = ?n \<and>
      (\<forall>i. ?n \<le> i \<and> i < length (payload ?f) - 1 \<longrightarrow> payload ?f ! i = 0xDE)"
    unfolding payload_data_frame by (auto simp: unat_pad_byte nth_append)
  have unpadded: "pad_len ?n = 0 \<Longrightarrow> payload ?f = data"
    unfolding payload_data_frame by simp
  show ?thesis
    unfolding Let_def hd_topic_msg flag
    using tr tk le padded unpadded pad_len_zero_iff [of ?n] by auto
qed

text \<open>Witness for C5: a 5-byte payload gets the pad bytes 0xDE, 0xDE, 3.\<close>

theorem topic_frame_padding_witness:
  "length [1, 2, 3, 4, 5 :: byte] \<le> 0x3FFF8 \<and>
   has_alignment_padding (header (hd (topic_msg 7 [1, 2, 3, 4, 5] 0))) \<and>
   payload (hd (topic_msg 7 [1, 2, 3, 4, 5] 0)) = [1, 2, 3, 4, 5, 0xDE, 0xDE, 3]"
proof -
  have h: "length [1, 2, 3, 4, 5 :: byte] \<le> 0x3FFF8" by simp
  have p: "pad_len 5 = 3" by (simp add: pad_len_def)
  have len: "length [1, 2, 3, 4, 5 :: byte] = 5" by simp
  from topic_frame_padding [OF h, of 7 0]
  have flag: "has_alignment_padding (header (hd (topic_msg 7 [1, 2, 3, 4, 5] 0)))"
    by (simp add: Let_def)
  have pl: "payload (hd (topic_msg 7 [1, 2, 3, 4, 5] 0)) = [1, 2, 3, 4, 5, 0xDE, 0xDE, 3]"
    by (simp only: hd_topic_msg payload_data_frame len p) (simp add: numeral_eq_Suc)
  from h flag pl show ?thesis by simp
qed

text \<open>
  Counterexample to C5 as stated: a payload of 1012 bytes, a multiple of 4, has
  \<open>has_alignment_padding\<close> set, and its final byte is 4, outside {1,2,3}.
\<close>

theorem topic_frame_padding_counterexample:
  "(1012::nat) mod 4 = 0 \<and>
   has_alignment_padding (header (hd (topic_msg 7 (replicate 1012 0) 0))) \<and>
   last (payload (hd (topic_msg 7 (replicate 1012 0) 0))) = 4"
proof -
  have p: "pad_len 1012 = 4" by (simp add: pad_len_def)
  have len: "length (replicate 1012 (0::byte)) = 1012" by simp
  show ?thesis
    by (simp only: hd_topic_msg payload_data_frame topic_data_frame_def len p) simp
qed

section \<open>Filler frames (C6)\<close>


lemma frame_size_data: "frame_size (topic_data_frame tp data incr) = length data + pad_len (length data) + 8"
  unfolding frame_size_def topic_data_frame_def by simp

lemma frame_size_data_mod:
  "frame_size (topic_data_frame tp data incr) mod 1024 = msg_rem (length data)"
  unfolding frame_size_data msg_rem_def by simp

lemma frame_size_filler: "frame_size (topic_filler_frame incr k) = 8 + k"
  unfolding frame_size_def topic_filler_frame_def by simp

lemma round_up_1024: "(x + (1024 - x mod 1024)) mod 1024 = (0::nat)"
proof -
  have "x mod 1024 \<le> x" by simp
  moreover have "x mod 1024 < 1024" by simp
  ultimately have "x + (1024 - x mod 1024) = (x - x mod 1024) + 1024" by simp
  also have "\<dots> = 1024 * (x div 1024) + 1024" by (simp add: minus_mod_eq_mult_div)
  finally show ?thesis by simp
qed

lemma filler_words:
  assumes "r mod 4 = 0" "r \<le> 1016"
  shows "(1016 - r) div 4 + 1 = (1024 - r) div 4 - (1::nat)"
proof -
  from assms(1) have "4 dvd r" by (simp add: dvd_eq_mod_eq_0)
  then obtain k where k: "r = 4 * k" by (auto elim: dvdE)
  with assms(2) have "k \<le> 254" by simp
  then have "(1016 - 4 * k) = 4 * (254 - k)" "(1024 - 4 * k) = 4 * (256 - k)" by simp_all
  then show ?thesis unfolding k using \<open>k \<le> 254\<close> by simp
qed

text \<open>
  Claim C6, as amended. The bytes emitted for one payload are a multiple of 1024. With
  \<open>gap\<close> the distance from the end of the data frame to the next 1024-byte
  boundary: when \<open>8 \<le> gap < 1024\<close> exactly one filler frame follows, of topic 0,
  without padding flag, of \<open>gap\<close> bytes in all, with
  \<open>num_words = gap div 4 - 1\<close>; otherwise the gap is 1024 and the data frame is
  alone. An 8-byte payload gets a filler with \<open>num_words = 0xFB\<close> and 1024 bytes
  in all.
\<close>

theorem topic_filler_to_boundary:
  "length data \<le> 0x3FFF8 \<Longrightarrow>
   (let fs = topic_msg tp data incr; gap = 1024 - frame_size (hd fs) mod 1024 in
      msg_bytes fs mod 1024 = 0 \<and>
      (8 \<le> gap \<and> gap < 1024 \<longrightarrow>
         fs = [hd fs, fs ! 1] \<and> topic (header (fs ! 1)) = 0 \<and>
         \<not> has_alignment_padding (header (fs ! 1)) \<and> frame_size (fs ! 1) = gap \<and>
         num_words (header (fs ! 1)) = of_nat (gap div 4 - 1)) \<and>
      (\<not> (8 \<le> gap \<and> gap < 1024) \<longrightarrow> fs = [hd fs] \<and> gap = 1024) \<and>
      (length data = 8 \<longrightarrow>
         length fs = 2 \<and> num_words (header (fs ! 1)) = 0xFB \<and> msg_bytes fs = 1024))"
proof -
  let ?n = "length data"
  let ?r = "msg_rem ?n"
  let ?d = "topic_data_frame tp data incr"
  let ?fl = "topic_filler_frame incr (1016 - ?r)"
  have le: "?r \<le> 1016" by (rule msg_rem_le)
  have al: "?r mod 4 = 0" by (rule msg_rem_aligned)
  have gap: "1024 - frame_size ?d mod 1024 = 1024 - ?r" unfolding frame_size_data_mod ..
  have gcond: "(8 \<le> 1024 - ?r \<and> 1024 - ?r < 1024) = (?r \<noteq> 0)" using le by auto
  have total: "msg_bytes (topic_msg tp data incr) mod 1024 = 0"
  proof (cases "?r = 0")
    case True
    then show ?thesis
      unfolding topic_msg_eq msg_bytes_def using frame_size_data_mod [of tp data incr] by simp
  next
    case False
    have "frame_size ?d + frame_size ?fl = frame_size ?d + (1024 - frame_size ?d mod 1024)"
      unfolding frame_size_filler frame_size_data_mod using le by simp
    then have "(frame_size ?d + frame_size ?fl) mod 1024 = 0" by (simp only: round_up_1024)
    with False show ?thesis unfolding topic_msg_eq msg_bytes_def by simp
  qed
  have fsz: "frame_size ?fl = 1024 - ?r" unfolding frame_size_filler using le by simp
  have fnw: "num_words (header ?fl) = of_nat ((1024 - ?r) div 4 - 1)"
    unfolding topic_filler_frame_def using filler_words [OF al le] by simp
  have ftp: "topic (header ?fl) = 0" "\<not> has_alignment_padding (header ?fl)"
    unfolding topic_filler_frame_def by simp_all
  have eight: "?n = 8 \<Longrightarrow> ?r = 16"
    unfolding msg_rem_def pad_len_def Let_def by simp
  have sc: "?n = 8 \<Longrightarrow> length (topic_msg tp data incr) = 2 \<and>
            num_words (header (topic_msg tp data incr ! 1)) = 0xFB \<and>
            msg_bytes (topic_msg tp data incr) = 1024"
  proof -
    assume n8: "?n = 8"
    have p8: "pad_len 8 = 0" by (simp add: pad_len_def)
    show ?thesis
      unfolding topic_msg_eq eight [OF n8] msg_bytes_def
      by (simp add: frame_size_data frame_size_filler n8 p8) (simp add: topic_filler_frame_def)
  qed
  show ?thesis
    unfolding Let_def hd_topic_msg gap gcond
    using total fsz fnw ftp sc by (auto simp: topic_msg_eq)
qed

text \<open>Witness for C6: the 8-byte payload.\<close>

theorem topic_filler_to_boundary_witness:
  "length [0, 0, 0, 0, 0, 0, 0, 0 :: byte] \<le> 0x3FFF8 \<and>
   msg_bytes (topic_msg 7 [0, 0, 0, 0, 0, 0, 0, 0] 0) = 1024 \<and>
   num_words (header (topic_msg 7 [0, 0, 0, 0, 0, 0, 0, 0] 0 ! 1)) = 0xFB"
proof -
  have h: "length [0, 0, 0, 0, 0, 0, 0, 0 :: byte] \<le> 0x3FFF8" by simp
  have l: "length [0, 0, 0, 0, 0, 0, 0, 0 :: byte] = 8" by simp
  from topic_filler_to_boundary [OF h, of 7 0] l show ?thesis
    by (simp add: Let_def)
qed

text \<open>
  Counterexample to C6 as stated: for the 8-byte payload the filler's
  \<open>num_words\<close> is not 0xF5.
\<close>

theorem topic_filler_to_boundary_counterexample:
  "num_words (header (topic_msg 7 [0, 0, 0, 0, 0, 0, 0, 0] 0 ! 1)) \<noteq> 0xF5"
proof -
  have l: "length [0, 0, 0, 0, 0, 0, 0, 0 :: byte] = 8" by simp
  have p8: "pad_len 8 = 0" by (simp add: pad_len_def)
  have r: "msg_rem 8 = 16" by (simp add: msg_rem_def p8)
  show ?thesis
    by (simp only: topic_msg_eq l r) (simp add: topic_filler_frame_def)
qed

section \<open>Fragmentation and the transport lock (C7, C9)\<close>

lemma raw_trace:
  "trace (xrsp_send_to_topic_raw host tp c) = trace host @ [EvSendUsb (topic_msg tp c (increment host))]"
  unfolding xrsp_send_to_topic_raw_def xrsp_send_usb_def Let_def
  by (simp split: prod.splits)

lemma raw_usb_mutex: "usb_mutex (xrsp_send_to_topic_raw host tp c) = usb_mutex host"
  unfolding xrsp_send_to_topic_raw_def xrsp_send_usb_def Let_def
  by (simp split: prod.splits)

lemma raw_increment: "increment (xrsp_send_to_topic_raw host tp c) = increment host + 1"
  unfolding xrsp_send_to_topic_raw_def xrsp_send_usb_def Let_def
  by (simp split: prod.splits)

lemma chunks_of_Nil [simp]: "chunks_of k [] = []"
  by (subst chunks_of.simps) simp

lemma chunks_of_step: "k \<noteq> 0 \<Longrightarrow> xs \<noteq> [] \<Longrightarrow> chunks_of k xs = take k xs # chunks_of k (drop k xs)"
  by (subst chunks_of.simps) simp

lemma no_overflow_step:
  assumes "(0x3FFF8::nat) dvd idx" "idx < to_send" "to_send \<le> 0x7FFF0000"
  shows "\<not> idx + 0x3FFF8 > INT32_MAX"
proof -
  from assms(1) obtain k where k: "idx = 0x3FFF8 * k" by (auto elim: dvdE)
  have "k < 8192"
  proof (rule ccontr)
    assume "\<not> k < 8192"
    then have "8192 \<le> k" by simp
    then have "0x3FFF8 * 8192 \<le> (0x3FFF8::nat) * k" by (rule mult_le_mono2)
    with assms(2,3) k show False by simp
  qed
  then have "k + 1 \<le> 8192" by simp
  then have "0x3FFF8 * (k + 1) \<le> (0x3FFF8::nat) * 8192" by (rule mult_le_mono2)
  then show ?thesis unfolding k INT32_MAX_def by simp
qed

lemma send_chunks_ok:
  "to_send = length data \<Longrightarrow> to_send \<le> 0x7FFF0000 \<Longrightarrow> 0x3FFF8 dvd idx \<or> to_send \<le> idx \<Longrightarrow>
   \<exists>host'. send_chunks host tp data idx to_send = Inr host' \<and>
       trace host' = trace host
          @ map EvSendUsb (chunk_msgs tp (increment host) (chunks_of 0x3FFF8 (drop idx data))) \<and>
       usb_mutex host' = usb_mutex host"
proof (induction host tp data idx to_send rule: send_chunks.induct)
  case (1 host tp data idx to_send)
  show ?case
  proof (cases "to_send \<le> idx")
    case True
    then have "drop idx data = []" using "1.prems"(1) by simp
    with True show ?thesis by (subst send_chunks.simps) simp
  next
    case False
    then have lt: "idx < to_send" by simp
    with "1.prems"(3) have dv: "0x3FFF8 dvd idx" by simp
    have nov: "\<not> idx + 0x3FFF8 > INT32_MAX"
      by (rule no_overflow_step [OF dv lt "1.prems"(2)])
    let ?amt = "chunk_amt idx to_send"
    let ?c = "take ?amt (drop idx data)"
    let ?h1 = "xrsp_send_to_topic_raw host tp ?c"
    have ne: "drop idx data \<noteq> []" using lt "1.prems"(1) by simp
    have ceq: "?c = take 0x3FFF8 (drop idx data)"
      unfolding chunk_amt_def using "1.prems"(1) lt by simp
    have next_ok: "0x3FFF8 dvd (idx + ?amt) \<or> to_send \<le> idx + ?amt"
      unfolding chunk_amt_def using dv lt by simp
    have rest: "chunks_of 0x3FFF8 (drop (idx + ?amt) data)
                  = chunks_of 0x3FFF8 (drop 0x3FFF8 (drop idx data))"
    proof (cases "idx + 0x3FFF8 \<ge> to_send")
      case True
      then have "drop (idx + ?amt) data = []" "drop 0x3FFF8 (drop idx data) = []"
        unfolding chunk_amt_def using "1.prems"(1) lt by simp_all
      then show ?thesis by simp
    next
      case False
      then show ?thesis unfolding chunk_amt_def by (simp add: add.commute)
    qed
    from "1.IH" [OF False nov "1.prems"(1,2) next_ok]
    obtain host' where h': "send_chunks ?h1 tp data (idx + ?amt) to_send = Inr host'"
      and tr: "trace host' = trace ?h1
          @ map EvSendUsb (chunk_msgs tp (increment ?h1) (chunks_of 0x3FFF8 (drop (idx + ?amt) data)))"
      and mx: "usb_mutex host' = usb_mutex ?h1"
      by blast
    have unf: "send_chunks host tp data idx to_send = send_chunks ?h1 tp data (idx + ?amt) to_send"
      using False nov by (simp add: send_chunks.simps [of host tp data idx to_send])
    have ch: "chunks_of 0x3FFF8 (drop idx data)
                = ?c # chunks_of 0x3FFF8 (drop (idx + ?amt) data)"
      unfolding rest ceq by (rule chunks_of_step) (use lt "1.prems"(1) in simp_all)
    show ?thesis
      unfolding unf h' ch using tr mx
      by (simp add: raw_trace raw_usb_mutex raw_increment)
  qed
qed


lemma frame_data_data_frame: "frame_data (topic_data_frame tp data incr) = data"
  unfolding frame_data_def topic_data_frame_def by (simp add: unat_pad_byte)

lemma frame_data_hd_topic_msg: "frame_data (hd (topic_msg tp data incr)) = data"
  unfolding hd_topic_msg by (rule frame_data_data_frame)

lemma chunk_msgs_data: "map (frame_data \<circ> hd) (chunk_msgs tp incr cs) = cs"
  by (induction cs arbitrary: incr) (simp_all add: frame_data_hd_topic_msg)

lemma topic_msg_topics:
  "topic (header (hd (topic_msg tp data incr))) = tp \<and>
   (\<forall>f \<in> set (tl (topic_msg tp data incr)). topic (header f) = 0)"
  unfolding topic_msg_eq by (simp add: topic_data_frame_def topic_filler_frame_def)

lemma chunk_msgs_topics:
  "\<forall>m \<in> set (chunk_msgs tp incr cs).
      topic (header (hd m)) = tp \<and> (\<forall>f \<in> set (tl m). topic (header f) = 0)"
  by (induction cs arbitrary: incr) (simp_all add: topic_msg_topics)

lemma chunk_msgs_payload_len:
  "map (length \<circ> payload \<circ> hd) (chunk_msgs tp incr cs) = map (\<lambda>c. length c + pad_len (length c)) cs"
  by (induction cs arbitrary: incr) (simp_all add: hd_topic_msg topic_data_frame_def)

lemma chunk_msgs_frames:
  "map length (chunk_msgs tp incr cs) = map (\<lambda>c. if msg_rem (length c) = 0 then 1 else 2) cs"
  by (induction cs arbitrary: incr) (simp_all add: topic_msg_eq)

lemma concat_chunks_of: "k \<noteq> 0 \<Longrightarrow> concat (chunks_of k xs) = xs"
proof (induction k xs rule: chunks_of.induct)
  case (1 k xs)
  show ?case
  proof (cases "xs = []")
    case True
    then show ?thesis by simp
  next
    case False
    with "1.prems" have "chunks_of k xs = take k xs # chunks_of k (drop k xs)"
      by (simp add: chunks_of_step)
    moreover have "concat (chunks_of k (drop k xs)) = drop k xs"
      using "1.IH" "1.prems" False by simp
    ultimately show ?thesis by simp
  qed
qed

lemma chunks_of_bounds: "k \<noteq> 0 \<Longrightarrow> \<forall>c \<in> set (chunks_of k xs). 0 < length c \<and> length c \<le> k"
proof (induction k xs rule: chunks_of.induct)
  case (1 k xs)
  show ?case
  proof (cases "xs = []")
    case True
    then show ?thesis by simp
  next
    case False
    with "1.prems" have "chunks_of k xs = take k xs # chunks_of k (drop k xs)"
      by (simp add: chunks_of_step)
    moreover have "\<forall>c \<in> set (chunks_of k (drop k xs)). 0 < length c \<and> length c \<le> k"
      using "1.IH" "1.prems" False by simp
    ultimately show ?thesis using False "1.prems" by auto
  qed
qed

lemma chunks_of_0x80000:
  assumes "length data = 0x80000"
  shows "map length (chunks_of 0x3FFF8 data) = [0x3FFF8, 0x3FFF8, 0x10]"
proof -
  have pos: "xs \<noteq> []" if "0 < length xs" for xs :: "'a list"
    using that by (cases xs) simp_all
  have ne: "data \<noteq> []" by (rule pos) (simp add: assms)
  have l1: "length (drop 0x3FFF8 data) = 0x40008" by (simp add: assms)
  have ne1: "drop 0x3FFF8 data \<noteq> []" proof (rule pos)
    show "0 < length (drop 0x3FFF8 data)" unfolding l1 by simp
  qed
  have l2: "length (drop 0x3FFF8 (drop 0x3FFF8 data)) = 0x10" by (simp add: assms)
  have ne2: "drop 0x3FFF8 (drop 0x3FFF8 data) \<noteq> []" proof (rule pos)
    show "0 < length (drop 0x3FFF8 (drop 0x3FFF8 data))" unfolding l2 by simp
  qed
  have e3: "drop 0x3FFF8 (drop 0x3FFF8 (drop 0x3FFF8 data)) = []" using assms by simp
  have "chunks_of 0x3FFF8 data =
          [take 0x3FFF8 data, take 0x3FFF8 (drop 0x3FFF8 data),
           take 0x3FFF8 (drop 0x3FFF8 (drop 0x3FFF8 data))]"
    by (simp only: chunks_of_step [OF _ ne] chunks_of_step [OF _ ne1] chunks_of_step [OF _ ne2]
          e3 chunks_of_Nil)
  then show ?thesis by (simp add: assms)
qed

text \<open>
  Claim C7, as the code has it. A call of \<open>xrsp_send_to_topic\<close> with between 1 and 0x7FFF0000 bytes,
  made while the mutex is free, returns; it locks the mutex once, hands one buffer per
  chunk to the transport and unlocks, so the mutex is held across all chunks of the
  message and free afterwards. The chunks are the consecutive pieces of at most 0x3FFF8
  bytes of the payload: each buffer starts with a frame of the given topic that carries
  one chunk, and any other frame in it is a filler of topic 0. A payload of 0x80000 bytes
  gives three data frames with payloads of 0x3FFF8, 0x3FFF8 and 0x10 bytes; the last one
  is followed by a filler frame.
\<close>

theorem send_to_topic_chunks:
  assumes "0 < length data" and "length data \<le> 0x7FFF0000" and "\<not> usb_mutex host"
  shows "\<exists>host' msgs.
           xrsp_send_to_topic host tp data = Inr host' \<and> \<not> usb_mutex host' \<and>
           trace host' = trace host @ [EvLock] @ map EvSendUsb msgs @ [EvUnlock] \<and>
           msgs = chunk_msgs tp (increment host) (chunks_of 0x3FFF8 data) \<and>
           map (frame_data \<circ> hd) msgs = chunks_of 0x3FFF8 data \<and>
           concat (chunks_of 0x3FFF8 data) = data \<and>
           (\<forall>c \<in> set (chunks_of 0x3FFF8 data). 0 < length c \<and> length c \<le> 0x3FFF8) \<and>
           (\<forall>m \<in> set msgs. topic (header (hd m)) = tp \<and> (\<forall>f \<in> set (tl m). topic (header f) = 0)) \<and>
           (length data = 0x80000 \<longrightarrow>
              map (length \<circ> payload \<circ> hd) msgs = [0x3FFF8, 0x3FFF8, 0x10] \<and>
              map length msgs = [1, 1, 2])"
proof -
  let ?h1 = "host\<lparr>usb_mutex := True, trace := trace host @ [EvLock]\<rparr>"
  let ?cs = "chunks_of 0x3FFF8 data"
  let ?msgs = "chunk_msgs tp (increment host) ?cs"
  from send_chunks_ok [of "length data" data 0 ?h1 tp] assms(2)
  obtain h2 where h2: "send_chunks ?h1 tp data 0 (length data) = Inr h2"
    and tr: "trace h2 = trace ?h1 @ map EvSendUsb (chunk_msgs tp (increment ?h1) ?cs)"
    and mx: "usb_mutex h2 = usb_mutex ?h1"
    by auto
  let ?h' = "h2\<lparr>usb_mutex := False, trace := trace h2 @ [EvUnlock]\<rparr>"
  have run: "xrsp_send_to_topic host tp data = Inr ?h'"
    unfolding xrsp_send_to_topic_def Let_def bind_res_def using assms(1,3) h2 by simp
  have scen: "length data = 0x80000 \<Longrightarrow>
                map (length \<circ> payload \<circ> hd) ?msgs = [0x3FFF8, 0x3FFF8, 0x10] \<and>
                map length ?msgs = [1, 1, 2]"
  proof -
    assume a: "length data = 0x80000"
    have p1: "pad_len 0x3FFF8 = 0" by (simp add: pad_len_def)
    have p2: "pad_len 0x10 = 0" by (simp add: pad_len_def)
    have r1: "msg_rem 0x3FFF8 = 0" by (simp add: msg_rem_def p1)
    have r2: "msg_rem 0x10 = 24" by (simp add: msg_rem_def p2)
    have "map (\<lambda>c. length c + pad_len (length c)) ?cs
            = map (\<lambda>n. n + pad_len n) (map length ?cs)" by (simp add: comp_def)
    moreover have "map (\<lambda>c. if msg_rem (length c) = 0 then 1 else 2) ?cs
            = map (\<lambda>n. if msg_rem n = 0 then 1 else (2::nat)) (map length ?cs)" by (simp add: comp_def)
    ultimately show ?thesis
      unfolding chunk_msgs_payload_len chunk_msgs_frames chunks_of_0x80000 [OF a]
      by (simp add: p1 p2 r1 r2)
  qed
  show ?thesis
    apply (rule exI [of _ ?h'], rule exI [of _ ?msgs])
    using run tr scen chunk_msgs_data [of tp "increment host" ?cs]
      concat_chunks_of [of "0x3FFF8" data] chunks_of_bounds [of "0x3FFF8" data]
      chunk_msgs_topics [of tp "increment host" ?cs]
    by simp
qed


text \<open>Witness for C7: three bytes sent on topic 7.\<close>

theorem send_to_topic_chunks_witness:
  "0 < length [1, 2, 3 :: byte] \<and> length [1, 2, 3 :: byte] \<le> 0x7FFF0000 \<and>
   \<not> usb_mutex (example_host 0) \<and>
   (\<exists>host'. xrsp_send_to_topic (example_host 0) 7 [1, 2, 3] = Inr host' \<and>
       \<not> usb_mutex host' \<and>
       trace host' = [EvLock, EvSendUsb (topic_msg 7 [1, 2, 3] 0), EvUnlock])"
proof -
  have a: "0 < length [1, 2, 3 :: byte]" by simp
  have b: "length [1, 2, 3 :: byte] \<le> 0x7FFF0000" by simp
  have c: "\<not> usb_mutex (example_host 0)" by (simp add: example_host_def)
  have ne: "[1, 2, 3 :: byte] \<noteq> []" by simp
  have ch: "chunks_of 0x3FFF8 [1, 2, 3 :: byte] = [[1, 2, 3]]"
    by (simp add: chunks_of_step [OF _ ne])
  from send_to_topic_chunks [OF a b c, of 7] a b c show ?thesis
    by (auto simp: ch example_host_def)
qed

text \<open>Beyond 0x7FFF0000 bytes, and the frames of the 0x80000-byte payload.\<close>

lemma overflow_step:
  assumes "0x3FFF8 dvd (idx::nat)" "\<not> idx + 0x3FFF8 > INT32_MAX"
  shows "idx + 0x3FFF8 \<le> 0x7FFF0000"
proof -
  from assms(1) obtain k where k: "idx = 0x3FFF8 * k" by (rule dvdE)
  from assms(2) have "0x3FFF8 * k + 0x3FFF8 \<le> 0x7FFFFFFF" unfolding k INT32_MAX_def by simp
  then have "k < 8192" by simp
  then have "k + 1 \<le> 8192" by simp
  then have "0x3FFF8 * (k + 1) \<le> 0x3FFF8 * 8192" by (rule mult_le_mono2)
  then show ?thesis unfolding k by simp
qed

lemma send_chunks_overflow:
  "to_send = length data \<Longrightarrow> 0x7FFF0000 < to_send \<Longrightarrow> 0x3FFF8 dvd idx \<Longrightarrow>
   idx \<le> 0x7FFF0000 \<Longrightarrow> send_chunks host tp data idx to_send = Inl SignedOverflow"
proof (induction host tp data idx to_send rule: send_chunks.induct)
  case (1 host tp data idx to_send)
  have lt: "\<not> to_send \<le> idx" using "1.prems"(2,4) by simp
  show ?case
  proof (cases "idx + 0x3FFF8 > INT32_MAX")
    case True
    with lt show ?thesis by (subst send_chunks.simps) simp
  next
    case False
    from overflow_step [OF "1.prems"(3) False] have le: "idx + 0x3FFF8 \<le> 0x7FFF0000" .
    then have amt: "chunk_amt idx to_send = 0x3FFF8"
      unfolding chunk_amt_def using "1.prems"(2) by simp
    have dv: "0x3FFF8 dvd idx + chunk_amt idx to_send" unfolding amt using "1.prems"(3) by simp
    have le': "idx + chunk_amt idx to_send \<le> 0x7FFF0000" unfolding amt by (rule le)
    from "1.IH" [OF lt False "1.prems"(1,2) dv le'] lt False
    show ?thesis by (subst send_chunks.simps) simp
  qed
qed

lemma send_to_topic_overflow:
  assumes "0x7FFF0000 < length data" "\<not> usb_mutex host"
  shows "xrsp_send_to_topic host tp data = Inl SignedOverflow"
proof -
  have "send_chunks (host\<lparr>usb_mutex := True, trace := trace host @ [EvLock]\<rparr>) tp data 0 (length data)
          = Inl SignedOverflow"
    by (rule send_chunks_overflow) (simp_all add: assms(1))
  moreover have "data \<noteq> []"
  proof
    assume "data = []"
    with assms(1) show False by simp
  qed
  ultimately show ?thesis
    unfolding xrsp_send_to_topic_def Let_def bind_res_def using assms(2) by simp
qed

lemma usb_frames_append: "usb_frames (a @ b) = usb_frames a @ usb_frames b"
  by (induction a rule: usb_frames.induct) simp_all

lemma usb_frames_map: "usb_frames (map EvSendUsb ms) = concat ms"
  by (induction ms) simp_all

lemma send_to_topic_frames:
  assumes "0 < length data" and "length data \<le> 0x7FFF0000" and "\<not> usb_mutex host"
  shows "\<exists>host'. xrsp_send_to_topic host tp data = Inr host' \<and>
           usb_frames (trace host') = usb_frames (trace host)
              @ concat (chunk_msgs tp (increment host) (chunks_of 0x3FFF8 data))"
proof -
  let ?h1 = "host\<lparr>usb_mutex := True, trace := trace host @ [EvLock]\<rparr>"
  from send_chunks_ok [of "length data" data 0 ?h1 tp] assms(2)
  obtain h2 where h2: "send_chunks ?h1 tp data 0 (length data) = Inr h2"
    and tr: "trace h2 = trace ?h1 @ map EvSendUsb (chunk_msgs tp (increment ?h1) (chunks_of 0x3FFF8 data))"
    by auto
  have "xrsp_send_to_topic host tp data = Inr (h2\<lparr>usb_mutex := False, trace := trace h2 @ [EvUnlock]\<rparr>)"
    unfolding xrsp_send_to_topic_def Let_def bind_res_def using assms(1,3) h2 by simp
  then show ?thesis using tr by (simp add: usb_frames_append usb_frames_map)
qed

text \<open>
  Counterexample to C7 as stated. With 0x7FFF0001 bytes the sum \<open>idx+amt\<close> of the loop
  exceeds \<open>INT32_MAX\<close> before the last chunk is sent. With 0x80000 bytes the call hands
  four topic frames to the transport, not three: the third data frame is followed by a
  filler frame.
\<close>

theorem send_to_topic_chunks_counterexample:
  "xrsp_send_to_topic (example_host 0) 7 (replicate 0x7FFF0001 0) = Inl SignedOverflow \<and>
   \<not> isl (xrsp_send_to_topic (example_host 0) 7 (replicate 0x80000 0)) \<and>
   length (usb_frames (trace (projr (xrsp_send_to_topic (example_host 0) 7 (replicate 0x80000 0)))))
     = 4"
proof -
  have free: "\<not> usb_mutex (example_host 0)" "trace (example_host 0) = []"
    by (simp_all add: example_host_def)
  have a: "xrsp_send_to_topic (example_host 0) 7 (replicate 0x7FFF0001 0) = Inl SignedOverflow"
    by (rule send_to_topic_overflow [OF _ free(1)]) simp
  have l: "length (replicate 0x80000 (0::byte)) = 0x80000" by simp
  have l1: "0 < length (replicate 0x80000 (0::byte))" "length (replicate 0x80000 (0::byte)) \<le> 0x7FFF0000"
    unfolding l by simp_all
  from send_to_topic_frames [OF l1 free(1), of 7] obtain h' where
    r: "xrsp_send_to_topic (example_host 0) 7 (replicate 0x80000 0) = Inr h'"
    and f: "usb_frames (trace h') = usb_frames (trace (example_host 0))
              @ concat (chunk_msgs 7 (increment (example_host 0)) (chunks_of 0x3FFF8 (replicate 0x80000 0)))"
    by blast
  have p1: "pad_len 0x3FFF8 = 0" by (simp add: pad_len_def)
  have p2: "pad_len 0x10 = 0" by (simp add: pad_len_def)
  have r1: "msg_rem 0x3FFF8 = 0" by (simp add: msg_rem_def p1)
  have r2: "msg_rem 0x10 = 24" by (simp add: msg_rem_def p2)
  have "map (\<lambda>c. if msg_rem (length c) = 0 then 1 else 2) (chunks_of 0x3FFF8 (replicate 0x80000 (0::byte)))
            = map (\<lambda>n. if msg_rem n = 0 then 1 else (2::nat))
                (map length (chunks_of 0x3FFF8 (replicate 0x80000 (0::byte))))"
    by (simp add: comp_def)
  then have m: "map length (chunk_msgs 7 (increment (example_host 0))
                  (chunks_of 0x3FFF8 (replicate 0x80000 0))) = [1, 1, 2]"
    unfolding chunk_msgs_frames chunks_of_0x80000 [OF l] by (simp add: r1 r2)
  have "length (usb_frames (trace h')) = 4"
    unfolding f free(2) by (simp add: length_concat m)
  with a r show ?thesis by simp
qed

text \<open>
  Claim C9 fails on the code. A call with no data (\<open>data_size\<close> 0) locks the mutex
  and returns without unlocking it; the next call on the same host never returns.
\<close>

theorem send_to_topic_keeps_mutex:
  "\<not> usb_mutex host \<Longrightarrow>
   xrsp_send_to_topic host tp [] = Inr (host\<lparr>usb_mutex := True, trace := trace host @ [EvLock]\<rparr>) \<and>
   xrsp_send_to_topic (host\<lparr>usb_mutex := True, trace := trace host @ [EvLock]\<rparr>) tp' data
     = Inl Deadlock"
  unfolding xrsp_send_to_topic_def Let_def by simp

text \<open>Witness for the failing input of C9.\<close>

theorem send_to_topic_keeps_mutex_witness:
  "\<not> usb_mutex (example_host 0) \<and>
   (\<exists>host'. xrsp_send_to_topic (example_host 0) 7 [] = Inr host' \<and> usb_mutex host' \<and>
       trace host' = [EvLock] \<and> xrsp_send_to_topic host' 7 [1, 2, 3] = Inl Deadlock)"
proof -
  have c: "\<not> usb_mutex (example_host 0)" by (simp add: example_host_def)
  from send_to_topic_keeps_mutex [OF c, of 7 7 "[1, 2, 3]"] c show ?thesis
    by (auto simp: example_host_def)
qed

section \<open>The 16 MiB bound of the stream buffers (C10)\<close>

lemma slot_ok_nat: "slot_ok i \<Longrightarrow> nat i < slots"
  unfolding slot_ok_def by (simp add: nat_less_iff)

lemma send_csd_cases:
  assumes "xrsp_send_csd host data index slice_idx = Inr host'"
  obtains
    (copied) "slot_ok (QL_IDX_SLICE slice_idx index)"
      "\<not> needs_flush host ! nat (QL_IDX_SLICE slice_idx index)"
      "(csd_stream_len host ! nat (QL_IDX_SLICE slice_idx index) + length data) mod 2 ^ 64 < 0x1000000"
      "csd_stream_len host ! nat (QL_IDX_SLICE slice_idx index) + length data
         \<le> length (csd_stream host ! nat (QL_IDX_SLICE slice_idx index))"
      "host' = host\<lparr>
         csd_stream := (csd_stream host)[nat (QL_IDX_SLICE slice_idx index) :=
            memcpy_at (csd_stream host ! nat (QL_IDX_SLICE slice_idx index))
              (csd_stream_len host ! nat (QL_IDX_SLICE slice_idx index)) data],
         csd_stream_len := (csd_stream_len host)[nat (QL_IDX_SLICE slice_idx index) :=
            (csd_stream_len host ! nat (QL_IDX_SLICE slice_idx index) + length data) mod 2 ^ 64]\<rparr>"
  | (dropped) "slot_ok (QL_IDX_SLICE slice_idx index)"
      "\<not> needs_flush host ! nat (QL_IDX_SLICE slice_idx index)"
      "\<not> (csd_stream_len host ! nat (QL_IDX_SLICE slice_idx index) + length data) mod 2 ^ 64 < 0x1000000"
      "host' = host"
  using assms unfolding xrsp_send_csd_def Let_def
  by (auto split: if_splits)

lemma send_idr_cases:
  assumes "xrsp_send_idr host data index slice_idx = Inr host'"
  obtains
    (copied) "slot_ok (QL_IDX_SLICE slice_idx index)"
      "\<not> needs_flush host ! nat (QL_IDX_SLICE slice_idx index)"
      "(idr_stream_len host ! nat (QL_IDX_SLICE slice_idx index) + length data) mod 2 ^ 64 < 0x1000000"
      "idr_stream_len host ! nat (QL_IDX_SLICE slice_idx index) + length data
         \<le> length (idr_stream host ! nat (QL_IDX_SLICE slice_idx index))"
      "host' = host\<lparr>
         idr_stream := (idr_stream host)[nat (QL_IDX_SLICE slice_idx index) :=
            memcpy_at (idr_stream host ! nat (QL_IDX_SLICE slice_idx index))
              (idr_stream_len host ! nat (QL_IDX_SLICE slice_idx index)) data],
         idr_stream_len := (idr_stream_len host)[nat (QL_IDX_SLICE slice_idx index) :=
            (idr_stream_len host ! nat (QL_IDX_SLICE slice_idx index) + length data) mod 2 ^ 64]\<rparr>"
  | (dropped) "slot_ok (QL_IDX_SLICE slice_idx index)"
      "\<not> needs_flush host ! nat (QL_IDX_SLICE slice_idx index)"
      "\<not> (idr_stream_len host ! nat (QL_IDX_SLICE slice_idx index) + length data) mod 2 ^ 64 < 0x1000000"
      "host' = host"
  using assms unfolding xrsp_send_idr_def Let_def
  by (auto split: if_splits)


lemma length_memcpy_at: "off + length data \<le> length buf \<Longrightarrow> length (memcpy_at buf off data) = length buf"
  unfolding memcpy_at_def by simp

lemma take_memcpy_at:
  "off + length data \<le> length buf \<Longrightarrow>
   take (off + length data) (memcpy_at buf off data) = take off buf @ data"
  unfolding memcpy_at_def by simp

lemma no_wrap:
  assumes "(a::nat) mod 2 ^ 64 < 0x1000000" "a \<le> 0x1000000"
  shows "a mod 2 ^ 64 = a"
proof -
  have "(0x1000000::nat) < 2 ^ 64" by simp
  with assms(2) have "a < 2 ^ 64" by (rule le_less_trans)
  then show ?thesis by simp
qed

lemma small_no_wrap: "(a::nat) < 0x1000000 \<Longrightarrow> a mod 2 ^ 64 = a"
proof -
  assume "a < 0x1000000"
  moreover have "(0x1000000::nat) < 2 ^ 64" by simp
  ultimately have "a < 2 ^ 64" by (rule less_trans)
  then show ?thesis by simp
qed

lemma send_csd_effect:
  assumes wf: "pipeline_wf host" and bd: "stream_lens_bounded host"
    and run: "xrsp_send_csd host data index slice_idx = Inr host'"
  shows "pipeline_wf host' \<and> stream_lens_bounded host' \<and>
     (let wi = nat (QL_IDX_SLICE slice_idx index); len = csd_stream_len host ! wi in
        if len + length data < 0x1000000
        then host' = host\<lparr>csd_stream := (csd_stream host)[wi := memcpy_at (csd_stream host ! wi) len data],
                             csd_stream_len := (csd_stream_len host)[wi := len + length data]\<rparr> \<and>
             take (len + length data) (csd_stream host' ! wi) = take len (csd_stream host ! wi) @ data
        else host' = host)"
proof -
  let ?wi = "nat (QL_IDX_SLICE slice_idx index)"
  let ?len = "csd_stream_len host ! ?wi"
  let ?buf = "csd_stream host ! ?wi"
  from run show ?thesis
  proof (cases rule: send_csd_cases)
    case copied
    have wi: "?wi < slots" by (rule slot_ok_nat [OF copied(1)])
    have cap: "length ?buf = 0x1000000" using wf wi unfolding pipeline_wf_def by simp
    have fits: "?len + length data \<le> length ?buf" by (rule copied(4))
    have nw: "(?len + length data) mod 2 ^ 64 = ?len + length data"
      by (rule no_wrap [OF copied(3)]) (use fits cap in simp)
    have lt: "?len + length data < 0x1000000" using copied(3) unfolding nw .
    have h': "host' = host\<lparr>csd_stream := (csd_stream host)[?wi := memcpy_at ?buf ?len data],
                             csd_stream_len := (csd_stream_len host)[?wi := ?len + length data]\<rparr>"
      using copied(5) unfolding nw .
    have wf': "pipeline_wf host'"
      using wf wi length_memcpy_at [OF fits] unfolding h' pipeline_wf_def
      by (auto simp: nth_list_update)
    have bd': "stream_lens_bounded host'"
      using bd lt wf wi unfolding h' stream_lens_bounded_def pipeline_wf_def
      by (auto simp: nth_list_update)
    have tk: "take (?len + length data) (csd_stream host' ! ?wi) = take ?len ?buf @ data"
      using wf wi take_memcpy_at [OF fits] unfolding h' pipeline_wf_def by simp
    show ?thesis unfolding Let_def using wf' bd' lt h' tk by simp
  next
    case dropped
    have "\<not> ?len + length data < 0x1000000"
    proof
      assume a: "?len + length data < 0x1000000"
      from dropped(3) show False unfolding small_no_wrap [OF a] using a by simp
    qed
    then show ?thesis unfolding Let_def using dropped(4) wf bd by simp
  qed
qed

lemma send_csd_returns:
  assumes wf: "pipeline_wf host" and bd: "stream_lens_bounded host"
    and ok: "slot_ok (QL_IDX_SLICE slice_idx index)"
    and idle: "\<not> needs_flush host ! nat (QL_IDX_SLICE slice_idx index)"
    and sz: "length data < 2 ^ 63"
  shows "\<exists>h. xrsp_send_csd host data index slice_idx = Inr h"
proof -
  let ?wi = "nat (QL_IDX_SLICE slice_idx index)"
  let ?len = "csd_stream_len host ! ?wi"
  have wi: "?wi < slots" by (rule slot_ok_nat [OF ok])
  have cap: "length (csd_stream host ! ?wi) = 0x1000000" using wf wi unfolding pipeline_wf_def by simp
  have len: "?len < 0x1000000" using bd wi unfolding stream_lens_bounded_def by simp
  have "?len + length data < 0x1000000 + 2 ^ 63" using len sz by (rule add_strict_mono)
  also have "\<dots> < (2 ^ 64 :: nat)" by simp
  finally have nw: "(?len + length data) mod 2 ^ 64 = ?len + length data" by simp
  show ?thesis
    unfolding xrsp_send_csd_def Let_def nw cap using ok idle by auto
qed
lemma send_idr_effect:
  assumes wf: "pipeline_wf host" and bd: "stream_lens_bounded host"
    and run: "xrsp_send_idr host data index slice_idx = Inr host'"
  shows "pipeline_wf host' \<and> stream_lens_bounded host' \<and>
     (let wi = nat (QL_IDX_SLICE slice_idx index); len = idr_stream_len host ! wi in
        if len + length data < 0x1000000
        then host' = host\<lparr>idr_stream := (idr_stream host)[wi := memcpy_at (idr_stream host ! wi) len data],
                             idr_stream_len := (idr_stream_len host)[wi := len + length data]\<rparr> \<and>
             take (len + length data) (idr_stream host' ! wi) = take len (idr_stream host ! wi) @ data
        else host' = host)"
proof -
  let ?wi = "nat (QL_IDX_SLICE slice_idx index)"
  let ?len = "idr_stream_len host ! ?wi"
  let ?buf = "idr_stream host ! ?wi"
  from run show ?thesis
  proof (cases rule: send_idr_cases)
    case copied
    have wi: "?wi < slots" by (rule slot_ok_nat [OF copied(1)])
    have cap: "length ?buf = 0x1000000" using wf wi unfolding pipeline_wf_def by simp
    have fits: "?len + length data \<le> length ?buf" by (rule copied(4))
    have nw: "(?len + length data) mod 2 ^ 64 = ?len + length data"
      by (rule no_wrap [OF copied(3)]) (use fits cap in simp)
    have lt: "?len + length data < 0x1000000" using copied(3) unfolding nw .
    have h': "host' = host\<lparr>idr_stream := (idr_stream host)[?wi := memcpy_at ?buf ?len data],
                             idr_stream_len := (idr_stream_len host)[?wi := ?len + length data]\<rparr>"
      using copied(5) unfolding nw .
    have wf': "pipeline_wf host'"
      using wf wi length_memcpy_at [OF fits] unfolding h' pipeline_wf_def
      by (auto simp: nth_list_update)
    have bd': "stream_lens_bounded host'"
      using bd lt wf wi unfolding h' stream_lens_bounded_def pipeline_wf_def
      by (auto simp: nth_list_update)
    have tk: "take (?len + length data) (idr_stream host' ! ?wi) = take ?len ?buf @ data"
      using wf wi take_memcpy_at [OF fits] unfolding h' pipeline_wf_def by simp
    show ?thesis unfolding Let_def using wf' bd' lt h' tk by simp
  next
    case dropped
    have "\<not> ?len + length data < 0x1000000"
    proof
      assume a: "?len + length data < 0x1000000"
      from dropped(3) show False unfolding small_no_wrap [OF a] using a by simp
    qed
    then show ?thesis unfolding Let_def using dropped(4) wf bd by simp
  qed
qed

lemma send_idr_returns:
  assumes wf: "pipeline_wf host" and bd: "stream_lens_bounded host"
    and ok: "slot_ok (QL_IDX_SLICE slice_idx index)"
    and idle: "\<not> needs_flush host ! nat (QL_IDX_SLICE slice_idx index)"
    and sz: "length data < 2 ^ 63"
  shows "\<exists>h. xrsp_send_idr host data index slice_idx = Inr h"
proof -
  let ?wi = "nat (QL_IDX_SLICE slice_idx index)"
  let ?len = "idr_stream_len host ! ?wi"
  have wi: "?wi < slots" by (rule slot_ok_nat [OF ok])
  have cap: "length (idr_stream host ! ?wi) = 0x1000000" using wf wi unfolding pipeline_wf_def by simp
  have len: "?len < 0x1000000" using bd wi unfolding stream_lens_bounded_def by simp
  have "?len + length data < 0x1000000 + 2 ^ 63" using len sz by (rule add_strict_mono)
  also have "\<dots> < (2 ^ 64 :: nat)" by simp
  finally have nw: "(?len + length data) mod 2 ^ 64 = ?len + length data" by simp
  show ?thesis
    unfolding xrsp_send_idr_def Let_def nw cap using ok idle by auto
qed


lemma slots_3: "slots = 3"
  by (simp add: slots_def QL_SWAPCHAIN_DEPTH_def QL_NUM_SLICES_def)

lemma upt_slots: "[0..<QL_NUM_SLICES * QL_SWAPCHAIN_DEPTH] = [0, 1, 2]"
  by (simp add: QL_SWAPCHAIN_DEPTH_def QL_NUM_SLICES_def upt_rec)

lemma lt3_cases: "i < (3::nat) \<Longrightarrow> i = 0 \<or> i = 1 \<or> i = 2"
  by arith

lemma rearm_lens_bounded: "pipeline_wf host \<Longrightarrow> stream_lens_bounded (rearm_pipeline host)"
proof -
  assume wf: "pipeline_wf host"
  then have l: "length (csd_stream_len host) = 3" "length (idr_stream_len host) = 3"
    unfolding pipeline_wf_def slots_3 by simp_all
  show ?thesis
    unfolding stream_lens_bounded_def rearm_pipeline_def upt_slots slots_3
    using l by (auto dest!: lt3_cases simp: nth_list_update)
qed

lemma flush_lens:
  "xrsp_flush_stream host t index slice_idx = Inr h \<Longrightarrow>
   csd_stream_len h = csd_stream_len host \<and> idr_stream_len h = idr_stream_len host"
  unfolding xrsp_flush_stream_def xrsp_ts_ns_def Let_def
  by (auto split: if_splits)

lemma start_encode_lens:
  "xrsp_start_encode host t index slice_idx = Inr h \<Longrightarrow>
   csd_stream_len h = csd_stream_len host \<and> idr_stream_len h = idr_stream_len host"
  unfolding xrsp_start_encode_def xrsp_ts_ns_def Let_def
  by (auto split: if_splits)

text \<open>
  Claim C10. In a host whose arrays have their declared sizes and whose length counters
  are below 0x1000000: a call of \<open>xrsp_send_csd\<close> or \<open>xrsp_send_idr\<close> that
  returns leaves every counter below 0x1000000; when the slot's length plus the incoming
  length is below 0x1000000 it has copied the bytes behind the ones already there and
  added their number to the length, and otherwise it has changed nothing at all. The
  calls return for any data of less than \<open>2 ^ 63\<close> bytes when the slot exists and is
  not waiting for the writer. Re-arming the pipeline, \<open>xrsp_flush_stream\<close> and
  \<open>xrsp_start_encode\<close> keep the bound as well.
\<close>

theorem stream_lens_stay_bounded:
  "pipeline_wf host \<Longrightarrow> stream_lens_bounded host \<Longrightarrow>
   (\<forall>data index slice_idx host'.
      xrsp_send_csd host data index slice_idx = Inr host' \<longrightarrow>
      pipeline_wf host' \<and> stream_lens_bounded host' \<and>
      (let wi = nat (QL_IDX_SLICE slice_idx index); len = csd_stream_len host ! wi in
         if len + length data < 0x1000000
         then host' = host\<lparr>csd_stream := (csd_stream host)[wi := memcpy_at (csd_stream host ! wi) len data],
                              csd_stream_len := (csd_stream_len host)[wi := len + length data]\<rparr> \<and>
              take (len + length data) (csd_stream host' ! wi) = take len (csd_stream host ! wi) @ data
         else host' = host)) \<and>
   (\<forall>data index slice_idx host'.
      xrsp_send_idr host data index slice_idx = Inr host' \<longrightarrow>
      pipeline_wf host' \<and> stream_lens_bounded host' \<and>
      (let wi = nat (QL_IDX_SLICE slice_idx index); len = idr_stream_len host ! wi in
         if len + length data < 0x1000000
         then host' = host\<lparr>idr_stream := (idr_stream host)[wi := memcpy_at (idr_stream host ! wi) len data],
                              idr_stream_len := (idr_stream_len host)[wi := len + length data]\<rparr> \<and>
              take (len + length data) (idr_stream host' ! wi) = take len (idr_stream host ! wi) @ data
         else host' = host)) \<and>
   (\<forall>data index slice_idx.
      slot_ok (QL_IDX_SLICE slice_idx index) \<and>
      \<not> needs_flush host ! nat (QL_IDX_SLICE slice_idx index) \<and> length data < 2 ^ 63 \<longrightarrow>
      (\<exists>h. xrsp_send_csd host data index slice_idx = Inr h) \<and>
      (\<exists>h. xrsp_send_idr host data index slice_idx = Inr h)) \<and>
   stream_lens_bounded (rearm_pipeline host) \<and>
   (\<forall>t index slice_idx h.
      xrsp_flush_stream host t index slice_idx = Inr h \<or>
      xrsp_start_encode host t index slice_idx = Inr h \<longrightarrow> stream_lens_bounded h)"
proof -
  assume wf: "pipeline_wf host" and bd: "stream_lens_bounded host"
  have a: "\<forall>data index slice_idx host'.
      xrsp_send_csd host data index slice_idx = Inr host' \<longrightarrow>
      pipeline_wf host' \<and> stream_lens_bounded host' \<and>
      (let wi = nat (QL_IDX_SLICE slice_idx index); len = csd_stream_len host ! wi in
         if len + length data < 0x1000000
         then host' = host\<lparr>csd_stream := (csd_stream host)[wi := memcpy_at (csd_stream host ! wi) len data],
                              csd_stream_len := (csd_stream_len host)[wi := len + length data]\<rparr> \<and>
              take (len + length data) (csd_stream host' ! wi) = take len (csd_stream host ! wi) @ data
         else host' = host)"
    using send_csd_effect [OF wf bd] by blast
  have b: "\<forall>data index slice_idx host'.
      xrsp_send_idr host data index slice_idx = Inr host' \<longrightarrow>
      pipeline_wf host' \<and> stream_lens_bounded host' \<and>
      (let wi = nat (QL_IDX_SLICE slice_idx index); len = idr_stream_len host ! wi in
         if len + length data < 0x1000000
         then host' = host\<lparr>idr_stream := (idr_stream host)[wi := memcpy_at (idr_stream host ! wi) len data],
                              idr_stream_len := (idr_stream_len host)[wi := len + length data]\<rparr> \<and>
              take (len + length data) (idr_stream host' ! wi) = take len (idr_stream host ! wi) @ data
         else host' = host)"
    using send_idr_effect [OF wf bd] by blast
  have c: "\<forall>data index slice_idx.
      slot_ok (QL_IDX_SLICE slice_idx index) \<and>
      \<not> needs_flush host ! nat (QL_IDX_SLICE slice_idx index) \<and> length data < 2 ^ 63 \<longrightarrow>
      (\<exists>h. xrsp_send_csd host data index slice_idx = Inr h) \<and>
      (\<exists>h. xrsp_send_idr host data index slice_idx = Inr h)"
    using send_csd_returns [OF wf bd] send_idr_returns [OF wf bd] by blast
  have d: "stream_lens_bounded (rearm_pipeline host)" by (rule rearm_lens_bounded [OF wf])
  have e: "\<forall>t index slice_idx h.
      xrsp_flush_stream host t index slice_idx = Inr h \<or>
      xrsp_start_encode host t index slice_idx = Inr h \<longrightarrow> stream_lens_bounded h"
    using bd flush_lens start_encode_lens unfolding stream_lens_bounded_def by metis
  from a b c d e show ?thesis by blast
qed

lemma example_host_wf: "pipeline_wf (example_host t0)"
  unfolding pipeline_wf_def example_host_def by simp

lemma example_host_bounded: "stream_lens_bounded (example_host t0)"
  unfolding stream_lens_bounded_def example_host_def by simp

text \<open>Witness for C10: three bytes appended to slot 0 and to slot 1 of a fresh host.\<close>

theorem stream_lens_stay_bounded_witness:
  "pipeline_wf (example_host 0) \<and> stream_lens_bounded (example_host 0) \<and>
   (\<exists>h. xrsp_send_csd (example_host 0) [1, 2, 3] 0 0 = Inr h \<and>
        csd_stream_len h = [3, 0, 0] \<and> stream_lens_bounded h) \<and>
   (\<exists>h. xrsp_send_idr (example_host 0) [1, 2, 3] 1 0 = Inr h \<and>
        idr_stream_len h = [0, 3, 0] \<and> stream_lens_bounded h)"
proof -
  note t = stream_lens_stay_bounded [OF example_host_wf example_host_bounded, of 0]
  have ok0: "slot_ok (QL_IDX_SLICE 0 0)" "slot_ok (QL_IDX_SLICE 0 1)"
    by (simp_all add: slot_ok_def QL_IDX_SLICE_def slots_3)
  have idle: "\<not> needs_flush (example_host 0) ! nat (QL_IDX_SLICE 0 0)"
    "\<not> needs_flush (example_host 0) ! nat (QL_IDX_SLICE 0 1)"
    by (simp_all add: example_host_def QL_IDX_SLICE_def slots_3)
  have sz: "length [1, 2, 3 :: byte] < 2 ^ 63" by simp
  from t ok0(1) idle(1) sz obtain h1 where h1: "xrsp_send_csd (example_host 0) [1, 2, 3] 0 0 = Inr h1"
    by blast
  from t ok0(2) idle(2) sz obtain h2 where h2: "xrsp_send_idr (example_host 0) [1, 2, 3] 1 0 = Inr h2"
    by blast
  from t h1 have e1: "stream_lens_bounded h1 \<and>
      (let wi = nat (QL_IDX_SLICE 0 0); len = csd_stream_len (example_host 0) ! wi in
         if len + length [1, 2, 3 :: byte] < 0x1000000
         then h1 = (example_host 0)\<lparr>csd_stream := (csd_stream (example_host 0))[wi := memcpy_at (csd_stream (example_host 0) ! wi) len [1, 2, 3]],
                              csd_stream_len := (csd_stream_len (example_host 0))[wi := len + length [1, 2, 3 :: byte]]\<rparr> \<and>
              take (len + length [1, 2, 3 :: byte]) (csd_stream h1 ! wi) = take len (csd_stream (example_host 0) ! wi) @ [1, 2, 3]
         else h1 = example_host 0)"
    by blast
  from t h2 have e2: "stream_lens_bounded h2 \<and>
      (let wi = nat (QL_IDX_SLICE 0 1); len = idr_stream_len (example_host 0) ! wi in
         if len + length [1, 2, 3 :: byte] < 0x1000000
         then h2 = (example_host 0)\<lparr>idr_stream := (idr_stream (example_host 0))[wi := memcpy_at (idr_stream (example_host 0) ! wi) len [1, 2, 3]],
                              idr_stream_len := (idr_stream_len (example_host 0))[wi := len + length [1, 2, 3 :: byte]]\<rparr> \<and>
              take (len + length [1, 2, 3 :: byte]) (idr_stream h2 ! wi) = take len (idr_stream (example_host 0) ! wi) @ [1, 2, 3]
         else h2 = example_host 0)"
    by blast
  have l1: "csd_stream_len h1 = [3, 0, 0]"
    using e1 by (simp add: Let_def QL_IDX_SLICE_def example_host_def slots_3 numeral_3_eq_3)
  have l2: "idr_stream_len h2 = [0, 3, 0]"
    using e2 by (simp add: Let_def QL_IDX_SLICE_def example_host_def slots_3 numeral_3_eq_3 QL_SWAPCHAIN_DEPTH_def)
  from h1 h2 l1 l2 e1 e2 example_host_wf example_host_bounded show ?thesis by blast
qed

section \<open>What sending on the transport changes\<close>

lemma only_sent_refl: "only_sent h h"
  unfolding only_sent_def by simp

lemma no_out_failure_mono:
  "no_out_failure h \<Longrightarrow> bulk_out h' = bulk_out h \<Longrightarrow> n_out h \<le> n_out h' \<Longrightarrow> no_out_failure h'"
  unfolding no_out_failure_def by auto

lemma only_sent_eq:
  "only_sent h h' \<Longrightarrow>
   h' = h\<lparr>usb_valid := usb_valid h', pairing_state := pairing_state h',
           usb_mutex := usb_mutex h', increment := increment h',
           trace := trace h', n_out := n_out h'\<rparr>"
  unfolding only_sent_def by blast

lemma only_sent_same:
  assumes "only_sent h h'"
  shows "bulk_out h' = bulk_out h" "sent_first_frame h' = sent_first_frame h"
    "ready_to_send_frames h' = ready_to_send_frames h" "needs_flush h' = needs_flush h"
    "stream_started_ns h' = stream_started_ns h" "csd_stream_len h' = csd_stream_len h"
    "idr_stream_len h' = idr_stream_len h" "csd_stream h' = csd_stream h"
    "idr_stream h' = idr_stream h" "mono_ns h' = mono_ns h" "n_clock h' = n_clock h"
    "ns_offset h' = ns_offset h" "echo_req_sent_ns h' = echo_req_sent_ns h"
    "num_slices h' = num_slices h" "frame_idx h' = frame_idx h" "paired_ns h' = paired_ns h"
    "last_read_ns h' = last_read_ns h" "client_id h' = client_id h"
    "echo_idx h' = echo_idx h" "tx_started_ns h' = tx_started_ns h"
proof -
  note e = only_sent_eq [OF assms]
  show "bulk_out h' = bulk_out h" by (subst e) simp
  show "sent_first_frame h' = sent_first_frame h" by (subst e) simp
  show "ready_to_send_frames h' = ready_to_send_frames h" by (subst e) simp
  show "needs_flush h' = needs_flush h" by (subst e) simp
  show "stream_started_ns h' = stream_started_ns h" by (subst e) simp
  show "csd_stream_len h' = csd_stream_len h" by (subst e) simp
  show "idr_stream_len h' = idr_stream_len h" by (subst e) simp
  show "csd_stream h' = csd_stream h" by (subst e) simp
  show "idr_stream h' = idr_stream h" by (subst e) simp
  show "mono_ns h' = mono_ns h" by (subst e) simp
  show "n_clock h' = n_clock h" by (subst e) simp
  show "ns_offset h' = ns_offset h" by (subst e) simp
  show "echo_req_sent_ns h' = echo_req_sent_ns h" by (subst e) simp
  show "num_slices h' = num_slices h" by (subst e) simp
  show "frame_idx h' = frame_idx h" by (subst e) simp
  show "paired_ns h' = paired_ns h" by (subst e) simp
  show "last_read_ns h' = last_read_ns h" by (subst e) simp
  show "client_id h' = client_id h" by (subst e) simp
  show "echo_idx h' = echo_idx h" by (subst e) simp
  show "tx_started_ns h' = tx_started_ns h" by (subst e) simp
qed

lemma only_sent_no_failure: "only_sent h h' \<Longrightarrow> no_out_failure h \<Longrightarrow> no_out_failure h'"
  by (rule no_out_failure_mono) (simp_all add: only_sent_same, simp add: only_sent_def)

lemma only_sent_trans:
  assumes ab: "only_sent a b" and bc: "only_sent b c"
  shows "only_sent a c"
proof -
  note ea = only_sent_eq [OF ab] and eb = only_sent_eq [OF bc]
  have eq: "c = a\<lparr>usb_valid := usb_valid c, pairing_state := pairing_state c,
                   usb_mutex := usb_mutex c, increment := increment c,
                   trace := trace c, n_out := n_out c\<rparr>"
    by (subst eb, subst ea) simp
  have n: "n_out a \<le> n_out c" using ab bc unfolding only_sent_def by simp
  from ab obtain e1 where e1: "trace b = trace a @ e1" "list_all is_link_event e1"
    unfolding only_sent_def by blast
  from bc obtain e2 where e2: "trace c = trace b @ e2" "list_all is_link_event e2"
    unfolding only_sent_def by blast
  have tr: "\<exists>evs. trace c = trace a @ evs \<and> list_all is_link_event evs"
    using e1 e2 by (intro exI [of _ "e1 @ e2"]) simp
  have ps: "pairing_state c = pairing_state a \<or> pairing_state c = PAIRINGSTATE_WAIT_FIRST"
    using ab bc unfolding only_sent_def by auto
  have nf: "no_out_failure a \<longrightarrow> pairing_state c = pairing_state a \<and> usb_valid c = usb_valid a"
  proof
    assume a: "no_out_failure a"
    then have "no_out_failure b" by (rule only_sent_no_failure [OF ab])
    with a ab bc show "pairing_state c = pairing_state a \<and> usb_valid c = usb_valid a"
      unfolding only_sent_def by simp
  qed
  show ?thesis unfolding only_sent_def using eq n tr ps nf by blast
qed

lemma only_sent_send_usb: "only_sent h (xrsp_send_usb h msg)"
proof (cases "usb_valid h")
  case False
  then show ?thesis unfolding xrsp_send_usb_def by (simp add: only_sent_refl)
next
  case True
  obtain r sent_len where b: "bulk_out h (n_out h) = (r, sent_len)" by (cases "bulk_out h (n_out h)")
  have f: "no_out_failure h \<Longrightarrow> r \<noteq> LIBUSB_ERROR_NO_DEVICE \<and> r \<noteq> LIBUSB_ERROR_TIMEOUT"
    unfolding no_out_failure_def using b by (metis fst_conv le_refl)
  show ?thesis
    unfolding xrsp_send_usb_def only_sent_def Let_def b using True f
    by (auto)
qed

lemma only_sent_raw: "only_sent h (xrsp_send_to_topic_raw h tp c)"
proof -
  let ?h1 = "h\<lparr>trace := trace h @ [EvSendUsb (topic_msg tp c (increment h))]\<rparr>"
  let ?h2 = "xrsp_send_usb ?h1 (topic_msg tp c (increment h))"
  have a: "only_sent h ?h1" unfolding only_sent_def no_out_failure_def by simp
  have b: "only_sent ?h1 ?h2" by (rule only_sent_send_usb)
  have c: "only_sent ?h2 (?h2\<lparr>increment := increment ?h2 + 1\<rparr>)"
    unfolding only_sent_def no_out_failure_def by simp
  show ?thesis
    unfolding xrsp_send_to_topic_raw_def Let_def
    by (rule only_sent_trans [OF only_sent_trans [OF a b] c])
qed

lemma only_sent_chunks:
  "send_chunks h tp data idx to_send = Inr h' \<Longrightarrow> only_sent h h'"
proof (induction h tp data idx to_send rule: send_chunks.induct)
  case (1 host tp data idx to_send)
  show ?case
  proof (cases "to_send \<le> idx")
    case True
    with "1.prems" have "h' = host" by (simp add: send_chunks.simps [of host tp data idx to_send])
    then show ?thesis by (simp add: only_sent_refl)
  next
    case False
    show ?thesis
    proof (cases "idx + 0x3FFF8 > INT32_MAX")
      case True
      with False "1.prems" show ?thesis
        by (simp add: send_chunks.simps [of host tp data idx to_send])
    next
      case nov: False
      let ?h1 = "xrsp_send_to_topic_raw host tp (take (chunk_amt idx to_send) (drop idx data))"
      from "1.prems" False nov
      have "send_chunks ?h1 tp data (idx + chunk_amt idx to_send) to_send = Inr h'"
        by (simp add: send_chunks.simps [of host tp data idx to_send])
      from "1.IH" [OF False nov this] have "only_sent ?h1 h'" .
      with only_sent_raw show ?thesis by (rule only_sent_trans)
    qed
  qed
qed

lemma only_sent_topic:
  assumes "xrsp_send_to_topic h tp data = Inr h'"
  shows "only_sent h h'"
proof -
  let ?h1 = "h\<lparr>usb_mutex := True, trace := trace h @ [EvLock]\<rparr>"
  have a: "only_sent h ?h1" unfolding only_sent_def no_out_failure_def by simp
  from assms have free: "\<not> usb_mutex h"
    unfolding xrsp_send_to_topic_def by (auto split: if_splits)
  show ?thesis
  proof (cases "int (length data) \<le> 0")
    case True
    with assms free have "h' = ?h1" unfolding xrsp_send_to_topic_def Let_def by simp
    with a show ?thesis by simp
  next
    case False
    with assms free obtain h2 where h2: "send_chunks ?h1 tp data 0 (length data) = Inr h2"
      and h': "h' = h2\<lparr>usb_mutex := False, trace := trace h2 @ [EvUnlock]\<rparr>"
      unfolding xrsp_send_to_topic_def Let_def bind_res_def
      by (auto split: sum.splits)
    have b: "only_sent ?h1 h2" by (rule only_sent_chunks [OF h2])
    have c: "only_sent h2 h'" unfolding h' only_sent_def no_out_failure_def by simp
    show ?thesis by (rule only_sent_trans [OF only_sent_trans [OF a b] c])
  qed
qed

lemma seq_res_rel:
  assumes refl: "\<And>h. R h h" and trans: "\<And>a b c. R a b \<Longrightarrow> R b c \<Longrightarrow> R a c"
    and step: "\<And>f h h'. f \<in> set fs \<Longrightarrow> f h = Inr h' \<Longrightarrow> R h h'"
    and run: "seq_res fs h = Inr h'"
  shows "R h h'"
  using step run
proof (induction fs arbitrary: h)
  case Nil
  then show ?case by (simp add: refl)
next
  case (Cons f fs)
  from Cons.prems(2) obtain h1 where f: "f h = Inr h1" and r: "seq_res fs h1 = Inr h'"
    by (auto split: sum.splits)
  have "R h h1" using Cons.prems(1) [of f h h1] f by simp
  moreover have "R h1 h'"
  proof (rule Cons.IH [OF _ r])
    fix g a b
    assume "g \<in> set fs" "g a = Inr b"
    then show "R a b" using Cons.prems(1) [of g a b] by simp
  qed
  ultimately show ?case by (rule trans)
qed

lemma only_sent_seq:
  assumes "\<And>f h h'. f \<in> set fs \<Longrightarrow> f h = Inr h' \<Longrightarrow> only_sent h h'"
    and "seq_res fs h = Inr h'"
  shows "only_sent h h'"
  by (rule seq_res_rel [where R = only_sent, OF only_sent_refl only_sent_trans assms])

lemma only_sent_wrapped:
  assumes "xrsp_send_to_topic_capnp_wrapped h tp idx data = Inr h'"
  shows "only_sent h h'"
proof -
  from assms obtain h1 where a: "xrsp_send_to_topic h tp
      (u32_bytes idx @ u32_bytes (drop_bit 3 (of_nat (length data)))) = Inr h1"
    and b: "xrsp_send_to_topic h1 tp data = Inr h'"
    unfolding xrsp_send_to_topic_capnp_wrapped_def Let_def bind_res_def
    by (auto split: sum.splits)
  show ?thesis by (rule only_sent_trans [OF only_sent_topic [OF a] only_sent_topic [OF b]])
qed

lemma only_sent_segments:
  assumes "xrsp_send_to_topic_capnp_segments h tp idx segs = Inr h'"
  shows "only_sent h h'"
proof -
  from assms obtain h1 where a: "xrsp_send_to_topic h tp
      (u32_bytes idx @ concat (map (\<lambda>seg. u32_bytes (drop_bit 3 (of_nat (length seg)))) segs)) = Inr h1"
    and b: "seq_res (map (\<lambda>seg host1. xrsp_send_to_topic host1 tp seg) segs) h1 = Inr h'"
    unfolding xrsp_send_to_topic_capnp_segments_def Let_def bind_res_def
    by (auto split: sum.splits)
  have "only_sent h1 h'"
    by (rule only_sent_seq [OF _ b]) (auto dest: only_sent_topic)
  with only_sent_topic [OF a] show ?thesis by (rule only_sent_trans)
qed

section \<open>A stream starts with a keyframe (C2)\<close>

lemma slice_events_append: "slice_events (a @ b) = slice_events a @ slice_events b"
  by (induction a rule: slice_events.induct) simp_all

lemma link_events_no_slice: "list_all is_link_event evs \<Longrightarrow> slice_events evs = []"
  by (induction evs rule: slice_events.induct) simp_all

lemma only_sent_trace:
  "only_sent h h' \<Longrightarrow> \<exists>evs. trace h' = trace h @ evs \<and> slice_events evs = []"
  unfolding only_sent_def using link_events_no_slice by blast

text \<open>The state of the host when \<open>xrsp_send_video\<close> reaches its final RPC call.\<close>

lemma send_video_cases:
  assumes run: "xrsp_send_video E host index slice_idx fidx ns csd_dat video_dat b = Inr h'"
  obtains
    (paused) "pairing_state host \<noteq> PAIRINGSTATE_PAIRED \<or> \<not> ready_to_send_frames host"
      "trace h' = trace host" "sent_first_frame h' = sent_first_frame host"
      "n_out h' = n_out host"
      "needs_flush h' = needs_flush host" "stream_started_ns h' = stream_started_ns host"
  | (suppressed) h9 where
      "pairing_state host = PAIRINGSTATE_PAIRED" "ready_to_send_frames host"
      "length csd_dat = 0" "\<not> sent_first_frame host"
      "trace h9 = trace host" "\<not> sent_first_frame h9" "n_out h9 = n_out host"
      "xrsp_ripc E (VoidBoolCmd (client_id h9) ''EnableEyeTrackingForPCLink'') h9 = Inr h'"
      "needs_flush h9 = needs_flush host" "stream_started_ns h9 = stream_started_ns host"
  | (sent) h9 msg evs where
      "pairing_state host = PAIRINGSTATE_PAIRED" "ready_to_send_frames host"
      "length csd_dat \<noteq> 0 \<or> sent_first_frame host"
      "trace h9 = trace host @ EvSlice msg index ns # evs" "list_all is_link_event evs"
      "csdSize msg = length csd_dat" "sent_first_frame h9"
      "xrsp_ripc E (VoidBoolCmd (client_id h9) ''EnableEyeTrackingForPCLink'') h9 = Inr h'"
      "needs_flush h9 = needs_flush host" "stream_started_ns h9 = stream_started_ns host"
proof -
  have ok: "slot_ok (QL_IDX_SLICE 0 index)" "slot_ok (QL_IDX_SLICE slice_idx index)"
    using run unfolding xrsp_send_video_def by (auto split: if_splits)
  show ?thesis
  proof (cases "pairing_state host \<noteq> PAIRINGSTATE_PAIRED \<or> \<not> ready_to_send_frames host")
    case True
    with run ok have "h' = host\<lparr>tx_started_ns := (tx_started_ns host)[nat (QL_IDX_SLICE slice_idx index) := 0],
                            tx_done_ns := (tx_done_ns host)[nat (QL_IDX_SLICE slice_idx index) := 0],
                            tx_duration_ns := (tx_duration_ns host)[nat (QL_IDX_SLICE slice_idx index) := 0]\<rparr>"
      unfolding xrsp_send_video_def Let_def by auto
    then show ?thesis using True by (intro paused) simp_all
  next
    case False
    then have act: "pairing_state host = PAIRINGSTATE_PAIRED" "ready_to_send_frames host" by simp_all
    define ri where "ri = nat (QL_IDX_SLICE slice_idx index)"
    define host3 where "host3 = snd (xrsp_ts_ns (snd (xrsp_ts_ns (snd (xrsp_ts_ns host)))))"
    define ts_before where "ts_before = fst (xrsp_ts_ns (snd (xrsp_ts_ns (snd (xrsp_ts_ns host)))))"
    define host4 where "host4 = host3\<lparr>tx_started_ns := (tx_started_ns host3)[ri := ts_before]\<rparr>"
    define msg where "msg = \<lparr>frameIdx = fidx, sliceNum = slice_idx,
        unk6p1 = (if length csd_dat > 0 then 1 else 0) OR (if slice_idx = num_slices host4 - 1 then 2 else 0),
        csdSize = length csd_dat, videoSize = length video_dat\<rparr>"
    define tp where "tp = TOPIC_SLICE_0 E + word_of_int slice_idx"
    define tail where "tail = (\<lambda>host8.
         (let (ts_after, host9) = xrsp_ts_ns host8;
              host10 = host9\<lparr>tx_done_ns := (tx_done_ns host9)[ri := ts_after],
                              tx_duration_ns := (tx_duration_ns host9)[ri := s64 (ts_after - ts_before)]\<rparr>
          in xrsp_ripc E (VoidBoolCmd (client_id host10) ''EnableEyeTrackingForPCLink'') host10))"
    have h4: "trace host4 = trace host" "sent_first_frame host4 = sent_first_frame host"
      "n_out host4 = n_out host"
      "needs_flush host4 = needs_flush host" "stream_started_ns host4 = stream_started_ns host"
      unfolding host4_def host3_def xrsp_ts_ns_def by simp_all
    have tail_eq: "\<And>h8 h. tail h8 = Inr h \<Longrightarrow>
        \<exists>h9. trace h9 = trace h8 \<and> sent_first_frame h9 = sent_first_frame h8 \<and> n_out h9 = n_out h8 \<and>
           needs_flush h9 = needs_flush h8 \<and> stream_started_ns h9 = stream_started_ns h8 \<and>
           xrsp_ripc E (VoidBoolCmd (client_id h9) ''EnableEyeTrackingForPCLink'') h9 = Inr h"
    proof -
      fix h8 h assume t: "tail h8 = Inr h"
      let ?h10 = "(snd (xrsp_ts_ns h8))\<lparr>tx_done_ns := (tx_done_ns (snd (xrsp_ts_ns h8)))[ri := fst (xrsp_ts_ns h8)],
            tx_duration_ns := (tx_duration_ns (snd (xrsp_ts_ns h8)))[ri := s64 (fst (xrsp_ts_ns h8) - ts_before)]\<rparr>"
      from t have "xrsp_ripc E (VoidBoolCmd (client_id ?h10) ''EnableEyeTrackingForPCLink'') ?h10 = Inr h"
        unfolding tail_def Let_def by (simp add: case_prod_beta)
      moreover have "trace ?h10 = trace h8" "sent_first_frame ?h10 = sent_first_frame h8"
        "n_out ?h10 = n_out h8"
        "needs_flush ?h10 = needs_flush h8" "stream_started_ns ?h10 = stream_started_ns h8"
        unfolding xrsp_ts_ns_def by simp_all
      ultimately show "\<exists>h9. trace h9 = trace h8 \<and> sent_first_frame h9 = sent_first_frame h8 \<and> n_out h9 = n_out h8 \<and>
           needs_flush h9 = needs_flush h8 \<and> stream_started_ns h9 = stream_started_ns h8 \<and>
           xrsp_ripc E (VoidBoolCmd (client_id h9) ''EnableEyeTrackingForPCLink'') h9 = Inr h"
        by blast
    qed
    have unf: "xrsp_send_video E host index slice_idx fidx ns csd_dat video_dat b =
        bind_res
          (if \<not> (length csd_dat = 0 \<and> \<not> sent_first_frame host4)
           then bind_res
                  (xrsp_send_to_topic_capnp_segments (host4\<lparr>trace := trace host4 @ [EvSlice msg index ns]\<rparr>) tp 0
                     (segments_for_output E (PayloadSlice msg)))
                  (\<lambda>host5. bind_res
                     (if length csd_dat \<noteq> 0 then xrsp_send_to_topic host5 tp csd_dat else Inr host5)
                     (\<lambda>host6. bind_res (xrsp_send_to_topic host6 tp video_dat)
                        (\<lambda>host7. Inr (host7\<lparr>sent_first_frame := True\<rparr>))))
           else Inr host4)
          tail"
      using ok act
      unfolding xrsp_send_video_def Let_def tail_def msg_def tp_def host4_def host3_def ts_before_def ri_def
      by (simp add: case_prod_beta)
    show ?thesis
    proof (cases "length csd_dat = 0 \<and> \<not> sent_first_frame host")
      case True
      with run have "tail host4 = Inr h'" unfolding unf bind_res_def by (simp add: h4)
      from tail_eq [OF this] obtain h9 where
        "trace h9 = trace host4" "sent_first_frame h9 = sent_first_frame host4" "n_out h9 = n_out host4"
        "xrsp_ripc E (VoidBoolCmd (client_id h9) ''EnableEyeTrackingForPCLink'') h9 = Inr h'"
        "needs_flush h9 = needs_flush host4" "stream_started_ns h9 = stream_started_ns host4"
        by blast
      then show ?thesis using True act h4 by (intro suppressed [of h9]) simp_all
    next
      case False
      with run obtain h5 h6 h7 where
        s1: "xrsp_send_to_topic_capnp_segments (host4\<lparr>trace := trace host4 @ [EvSlice msg index ns]\<rparr>) tp 0
               (segments_for_output E (PayloadSlice msg)) = Inr h5"
        and s2: "(if length csd_dat \<noteq> 0 then xrsp_send_to_topic h5 tp csd_dat else Inr h5) = Inr h6"
        and s3: "xrsp_send_to_topic h6 tp video_dat = Inr h7"
        and t: "tail (h7\<lparr>sent_first_frame := True\<rparr>) = Inr h'"
        unfolding unf bind_res_def by (auto simp: h4 split: sum.splits)
      have r1: "only_sent (host4\<lparr>trace := trace host4 @ [EvSlice msg index ns]\<rparr>) h5"
        by (rule only_sent_segments [OF s1])
      have r2: "only_sent h5 h6"
        using s2 by (auto split: if_splits intro: only_sent_topic only_sent_refl)
      have r3: "only_sent h6 h7" by (rule only_sent_topic [OF s3])
      have r: "only_sent (host4\<lparr>trace := trace host4 @ [EvSlice msg index ns]\<rparr>) h7"
        by (rule only_sent_trans [OF only_sent_trans [OF r1 r2] r3])
      then obtain evs where evs: "trace h7 = trace host4 @ [EvSlice msg index ns] @ evs" "list_all is_link_event evs"
        unfolding only_sent_def by auto
      from tail_eq [OF t] obtain h9 where
        h9: "trace h9 = trace h7" "sent_first_frame h9" 
        "xrsp_ripc E (VoidBoolCmd (client_id h9) ''EnableEyeTrackingForPCLink'') h9 = Inr h'"
        "needs_flush h9 = needs_flush h7" "stream_started_ns h9 = stream_started_ns h7"
        by auto
      have k7: "needs_flush h7 = needs_flush host" "stream_started_ns h7 = stream_started_ns host"
        using only_sent_same(4,5) [OF r] h4 by simp_all
      show ?thesis
        using False act evs h9 h4 k7
        by (intro sent [of h9 msg evs]) (auto simp: msg_def)
    qed
  qed
qed


text \<open>What holds of the events emitted since an un-armed state.\<close>

lemma keyframe_step:
  assumes keep: "ripc_keeps_video E"
    and inv: "case slice_events evs of [] \<Rightarrow> \<not> sent_first_frame h
                | m # ms \<Rightarrow> 0 < csdSize m \<and> sent_first_frame h"
    and tr: "trace h = t0 @ evs"
    and run: "xrsp_send_video E h index slice_idx fidx ns csd_dat video_dat b = Inr h'"
  shows "\<exists>evs'. trace h' = t0 @ evs' \<and>
           (case slice_events evs' of [] \<Rightarrow> \<not> sent_first_frame h'
            | m # ms \<Rightarrow> 0 < csdSize m \<and> sent_first_frame h')"
  using run
proof (cases rule: send_video_cases)
  case paused
  then show ?thesis using inv tr by (intro exI [of _ evs]) (auto split: list.splits)
next
  case (suppressed h9)
  from keep suppressed(8) obtain e where e: "trace h' = trace h9 @ e" "slice_events e = []"
    and f: "sent_first_frame h' = sent_first_frame h9"
    unfolding ripc_keeps_video_def by blast
  from suppressed(4) inv have "slice_events evs = []" by (auto split: list.splits)
  then show ?thesis
    using e f suppressed tr by (intro exI [of _ "evs @ e"]) (simp add: slice_events_append)
next
  case (sent h9 msg es)
  from keep sent(8) obtain e where e: "trace h' = trace h9 @ e" "slice_events e = []"
    and f: "sent_first_frame h' = sent_first_frame h9"
    unfolding ripc_keeps_video_def by blast
  have es: "slice_events es = []" by (rule link_events_no_slice [OF sent(5)])
  have tr': "trace h' = t0 @ (evs @ EvSlice msg index ns # es @ e)" using e sent(4) tr by simp
  have se: "slice_events (evs @ EvSlice msg index ns # es @ e) = slice_events evs @ [msg]"
    using es e(2) by (simp add: slice_events_append)
  show ?thesis
  proof (cases "slice_events evs")
    case Nil
    with inv have "\<not> sent_first_frame h" by simp
    with sent(3) have "0 < csdSize msg" using sent(6) by simp
    then show ?thesis using tr' se Nil f sent(7) by (intro exI [of _ "evs @ EvSlice msg index ns # es @ e"]) simp
  next
    case (Cons m ms)
    with inv have "0 < csdSize m" by simp
    then show ?thesis using tr' se Cons f sent(7) by (intro exI [of _ "evs @ EvSlice msg index ns # es @ e"]) simp
  qed
qed

lemma keyframe_run:
  assumes keep: "ripc_keeps_video E"
  shows "seq_res (map (send_video_call E) calls) h = Inr h' \<Longrightarrow>
         trace h = t0 @ evs \<Longrightarrow>
         (case slice_events evs of [] \<Rightarrow> \<not> sent_first_frame h
          | m # ms \<Rightarrow> 0 < csdSize m \<and> sent_first_frame h) \<Longrightarrow>
         \<exists>evs'. trace h' = t0 @ evs' \<and>
           (case slice_events evs' of [] \<Rightarrow> \<not> sent_first_frame h'
            | m # ms \<Rightarrow> 0 < csdSize m \<and> sent_first_frame h')"
proof (induction calls arbitrary: h evs)
  case Nil
  then show ?case by auto
next
  case (Cons c calls)
  obtain index slice_idx fidx ns csd_dat video_dat where c: "c = (index, slice_idx, fidx, ns, csd_dat, video_dat)"
    by (cases c) auto
  from Cons.prems(1) obtain h1 where
    s: "xrsp_send_video E h index slice_idx fidx ns csd_dat video_dat 0 = Inr h1"
    and r: "seq_res (map (send_video_call E) calls) h1 = Inr h'"
    unfolding c by (auto split: sum.splits)
  from keyframe_step [OF keep Cons.prems(3) Cons.prems(2) s]
  obtain evs1 where "trace h1 = t0 @ evs1"
    "case slice_events evs1 of [] \<Rightarrow> \<not> sent_first_frame h1
     | m # ms \<Rightarrow> 0 < csdSize m \<and> sent_first_frame h1"
    by blast
  from Cons.IH [OF r this] show ?case .
qed

lemma rearm_not_sent: "\<not> sent_first_frame (rearm_pipeline h)"
  unfolding rearm_pipeline_def upt_slots by simp

text \<open>
  Claim C2. While \<open>sent_first_frame\<close> is false, a call of \<open>xrsp_send_video\<close> with no
  CSD bytes sends nothing: no slice message, no transfer on the transport, and the flag
  stays false. Over any run of calls from an un-armed host, the first slice message that
  goes out carries CSD bytes, and the flag is set exactly when a slice message has gone
  out. Re-arming the pipeline clears the flag, so the rule applies again. The RPC call
  that ends \<open>xrsp_send_video\<close> is outside the listed sources; it is assumed to leave
  the flag alone and to send no slice message.
\<close>

theorem keyframe_first:
  "ripc_keeps_video E \<Longrightarrow> \<not> sent_first_frame host \<Longrightarrow>
   (\<forall>calls host'.
      seq_res (map (send_video_call E) calls) host = Inr host' \<longrightarrow>
      (\<exists>evs. trace host' = trace host @ evs \<and>
         (case slice_events evs of [] \<Rightarrow> \<not> sent_first_frame host'
          | m # ms \<Rightarrow> 0 < csdSize m \<and> sent_first_frame host'))) \<and>
   (\<forall>index slice_idx fidx ns video_dat host'.
      xrsp_send_video E host index slice_idx fidx ns [] video_dat 0 = Inr host' \<longrightarrow>
      \<not> sent_first_frame host' \<and>
      (\<exists>evs. trace host' = trace host @ evs \<and> slice_events evs = []) \<and>
      (\<exists>h9. trace h9 = trace host \<and> n_out h9 = n_out host \<and>
         (host' = h9 \<or>
          xrsp_ripc E (VoidBoolCmd (client_id h9) ''EnableEyeTrackingForPCLink'') h9 = Inr host'))) \<and>
   (\<forall>h. \<not> sent_first_frame (rearm_pipeline h))"
proof -
  assume keep: "ripc_keeps_video E" and nf: "\<not> sent_first_frame host"
  have a: "\<forall>calls host'.
      seq_res (map (send_video_call E) calls) host = Inr host' \<longrightarrow>
      (\<exists>evs. trace host' = trace host @ evs \<and>
         (case slice_events evs of [] \<Rightarrow> \<not> sent_first_frame host'
          | m # ms \<Rightarrow> 0 < csdSize m \<and> sent_first_frame host'))"
  proof (intro allI impI)
    fix calls host'
    assume r: "seq_res (map (send_video_call E) calls) host = Inr host'"
    show "\<exists>evs. trace host' = trace host @ evs \<and>
         (case slice_events evs of [] \<Rightarrow> \<not> sent_first_frame host'
          | m # ms \<Rightarrow> 0 < csdSize m \<and> sent_first_frame host')"
      by (rule keyframe_run [OF keep r, of "trace host" "[]"]) (simp_all add: nf)
  qed
  have b: "\<forall>index slice_idx fidx ns video_dat host'.
      xrsp_send_video E host index slice_idx fidx ns [] video_dat 0 = Inr host' \<longrightarrow>
      \<not> sent_first_frame host' \<and>
      (\<exists>evs. trace host' = trace host @ evs \<and> slice_events evs = []) \<and>
      (\<exists>h9. trace h9 = trace host \<and> n_out h9 = n_out host \<and>
         (host' = h9 \<or>
          xrsp_ripc E (VoidBoolCmd (client_id h9) ''EnableEyeTrackingForPCLink'') h9 = Inr host'))"
  proof (intro allI impI)
    fix index slice_idx fidx ns video_dat host'
    assume r: "xrsp_send_video E host index slice_idx fidx ns [] video_dat 0 = Inr host'"
    from r show "\<not> sent_first_frame host' \<and>
      (\<exists>evs. trace host' = trace host @ evs \<and> slice_events evs = []) \<and>
      (\<exists>h9. trace h9 = trace host \<and> n_out h9 = n_out host \<and>
         (host' = h9 \<or>
          xrsp_ripc E (VoidBoolCmd (client_id h9) ''EnableEyeTrackingForPCLink'') h9 = Inr host'))"
    proof (cases rule: send_video_cases)
      case paused
      then show ?thesis using nf by auto
    next
      case (suppressed h9)
      from keep suppressed(8) obtain e where "trace host' = trace h9 @ e" "slice_events e = []"
        "sent_first_frame host' = sent_first_frame h9"
        unfolding ripc_keeps_video_def by blast
      then show ?thesis using suppressed by auto
    next
      case (sent h9 msg es)
      with nf show ?thesis by simp
    qed
  qed
  from a b rearm_not_sent show ?thesis by blast
qed



text \<open>When the calls of the framer and of \<open>xrsp_send_video\<close> return.\<close>

lemma send_to_topic_returns:
  assumes "\<not> usb_mutex h" "data \<noteq> []" "length data \<le> 0x7FFF0000"
  shows "\<exists>h'. xrsp_send_to_topic h tp data = Inr h' \<and> \<not> usb_mutex h'"
proof -
  let ?h1 = "h\<lparr>usb_mutex := True, trace := trace h @ [EvLock]\<rparr>"
  from send_chunks_ok [of "length data" data 0 ?h1 tp] assms(3)
  obtain h2 where "send_chunks ?h1 tp data 0 (length data) = Inr h2" "usb_mutex h2 = usb_mutex ?h1"
    by auto
  then show ?thesis
    using assms(1,2) unfolding xrsp_send_to_topic_def Let_def bind_res_def by simp
qed

lemma seq_topic_returns:
  "\<not> usb_mutex h \<Longrightarrow> \<forall>seg \<in> set segs. seg \<noteq> [] \<and> length seg \<le> 0x7FFF0000 \<Longrightarrow>
   \<exists>h'. seq_res (map (\<lambda>seg host1. xrsp_send_to_topic host1 tp seg) segs) h = Inr h' \<and> \<not> usb_mutex h'"
proof (induction segs arbitrary: h)
  case Nil
  then show ?case by simp
next
  case (Cons s segs)
  from send_to_topic_returns [OF Cons.prems(1), of s tp] Cons.prems(2)
  obtain h1 where h1: "xrsp_send_to_topic h tp s = Inr h1" "\<not> usb_mutex h1" by auto
  from Cons.IH [OF h1(2)] Cons.prems(2)
  obtain h' where "seq_res (map (\<lambda>seg host1. xrsp_send_to_topic host1 tp seg) segs) h1 = Inr h'"
    "\<not> usb_mutex h'" by auto
  with h1 show ?case by simp
qed

lemma length_le_bytes: "length (le_bytes n v) = n"
  by (induction n arbitrary: v) simp_all

lemma length_u32_bytes: "length (u32_bytes w) = 4"
  unfolding u32_bytes_def by (simp add: length_le_bytes)

lemma segments_returns:
  assumes "\<not> usb_mutex h" "\<forall>seg \<in> set segs. seg \<noteq> [] \<and> length seg \<le> 0x7FFF0000"
    "length segs \<le> 0x1000000"
  shows "\<exists>h'. xrsp_send_to_topic_capnp_segments h tp idx segs = Inr h' \<and> \<not> usb_mutex h'"
proof -
  let ?pre = "u32_bytes idx @ concat (map (\<lambda>seg. u32_bytes (drop_bit 3 (of_nat (length seg)))) segs)"
  have l: "length ?pre = 4 + 4 * length segs"
    by (simp add: length_u32_bytes length_concat comp_def sum_list_triv)
  have "0 < length ?pre" unfolding l by simp
  then have ne: "?pre \<noteq> []" using length_greater_0_conv by blast
  have le: "length ?pre \<le> 0x7FFF0000" unfolding l using assms(3) by simp
  from send_to_topic_returns [OF assms(1) ne le, of tp]
  obtain h1 where h1: "xrsp_send_to_topic h tp ?pre = Inr h1" "\<not> usb_mutex h1" by auto
  from seq_topic_returns [OF h1(2) assms(2), of tp] h1(1) show ?thesis
    unfolding xrsp_send_to_topic_capnp_segments_def Let_def bind_res_def by simp
qed


lemma send_video_returns:
  assumes ok: "slot_ok (QL_IDX_SLICE 0 index)" "slot_ok (QL_IDX_SLICE slice_idx index)"
    and free: "\<not> usb_mutex host"
    and segs: "\<forall>m. \<forall>seg \<in> set (segments_for_output E m). seg \<noteq> [] \<and> length seg \<le> 0x7FFF0000"
              "\<forall>m. length (segments_for_output E m) \<le> 0x1000000"
    and dat: "video_dat \<noteq> []" "length video_dat \<le> 0x7FFF0000" "length csd_dat \<le> 0x7FFF0000"
    and rpc: "\<forall>c h. \<exists>h'. xrsp_ripc E c h = Inr h'"
  shows "\<exists>h'. xrsp_send_video E host index slice_idx fidx ns csd_dat video_dat b = Inr h'"
proof (cases "pairing_state host \<noteq> PAIRINGSTATE_PAIRED \<or> \<not> ready_to_send_frames host")
  case True
  then show ?thesis using ok unfolding xrsp_send_video_def Let_def by auto
next
  case False
  define ri where "ri = nat (QL_IDX_SLICE slice_idx index)"
  define host3 where "host3 = snd (xrsp_ts_ns (snd (xrsp_ts_ns (snd (xrsp_ts_ns host)))))"
  define ts_before where "ts_before = fst (xrsp_ts_ns (snd (xrsp_ts_ns (snd (xrsp_ts_ns host)))))"
  define host4 where "host4 = host3\<lparr>tx_started_ns := (tx_started_ns host3)[ri := ts_before]\<rparr>"
  define msg where "msg = \<lparr>frameIdx = fidx, sliceNum = slice_idx,
      unk6p1 = (if length csd_dat > 0 then 1 else 0) OR (if slice_idx = num_slices host4 - 1 then 2 else 0),
      csdSize = length csd_dat, videoSize = length video_dat\<rparr>"
  define tp where "tp = TOPIC_SLICE_0 E + word_of_int slice_idx"
  define tail where "tail = (\<lambda>host8.
       (let (ts_after, host9) = xrsp_ts_ns host8;
            host10 = host9\<lparr>tx_done_ns := (tx_done_ns host9)[ri := ts_after],
                            tx_duration_ns := (tx_duration_ns host9)[ri := s64 (ts_after - ts_before)]\<rparr>
        in xrsp_ripc E (VoidBoolCmd (client_id host10) ''EnableEyeTrackingForPCLink'') host10))"
  have tail_ret: "\<And>h8. \<exists>h'. tail h8 = Inr h'"
    unfolding tail_def Let_def using rpc by (simp add: case_prod_beta)
  have unf: "xrsp_send_video E host index slice_idx fidx ns csd_dat video_dat b =
      bind_res
        (if \<not> (length csd_dat = 0 \<and> \<not> sent_first_frame host4)
         then bind_res
                (xrsp_send_to_topic_capnp_segments (host4\<lparr>trace := trace host4 @ [EvSlice msg index ns]\<rparr>) tp 0
                   (segments_for_output E (PayloadSlice msg)))
                (\<lambda>host5. bind_res
                   (if length csd_dat \<noteq> 0 then xrsp_send_to_topic host5 tp csd_dat else Inr host5)
                   (\<lambda>host6. bind_res (xrsp_send_to_topic host6 tp video_dat)
                      (\<lambda>host7. Inr (host7\<lparr>sent_first_frame := True\<rparr>))))
         else Inr host4)
        tail"
    using ok False
    unfolding xrsp_send_video_def Let_def tail_def msg_def tp_def host4_def host3_def ts_before_def ri_def
    by (simp add: case_prod_beta)
  have f4: "\<not> usb_mutex (host4\<lparr>trace := trace host4 @ [EvSlice msg index ns]\<rparr>)"
    unfolding host4_def host3_def xrsp_ts_ns_def using free by simp
  show ?thesis
  proof (cases "length csd_dat = 0 \<and> \<not> sent_first_frame host4")
    case True
    then show ?thesis unfolding unf bind_res_def using tail_ret [of host4] by simp
  next
    case nsup: False
    from segments_returns [OF f4, of "segments_for_output E (PayloadSlice msg)" tp 0] segs
    obtain h5 where h5: "xrsp_send_to_topic_capnp_segments (host4\<lparr>trace := trace host4 @ [EvSlice msg index ns]\<rparr>) tp 0
                   (segments_for_output E (PayloadSlice msg)) = Inr h5" "\<not> usb_mutex h5"
      by blast
    have "\<exists>h6. (if length csd_dat \<noteq> 0 then xrsp_send_to_topic h5 tp csd_dat else Inr h5) = Inr h6
              \<and> \<not> usb_mutex h6"
    proof (cases "length csd_dat \<noteq> 0")
      case True
      then have "csd_dat \<noteq> []" by auto
      from send_to_topic_returns [OF h5(2) this dat(3), of tp] True show ?thesis by simp
    next
      case False
      then show ?thesis using h5(2) by simp
    qed
    then obtain h6 where h6: "(if length csd_dat \<noteq> 0 then xrsp_send_to_topic h5 tp csd_dat else Inr h5) = Inr h6"
      "\<not> usb_mutex h6" by blast
    from send_to_topic_returns [OF h6(2) dat(1,2), of tp]
    obtain h7 where h7: "xrsp_send_to_topic h6 tp video_dat = Inr h7" by blast
    from tail_ret [of "h7\<lparr>sent_first_frame := True\<rparr>"] obtain h' where
      "tail (h7\<lparr>sent_first_frame := True\<rparr>) = Inr h'" by blast
    then show ?thesis unfolding unf bind_res_def using nsup h5(1) h6(1) h7 by simp
  qed
qed

lemma example_ripc_keeps_video: "ripc_keeps_video example_externals"
  unfolding ripc_keeps_video_def example_externals_def by simp

text \<open>
  Witness for C2: on a paired, armed host that has sent nothing, a frame with one CSD
  byte goes out as a slice message and sets the flag; a frame with no CSD bytes leaves
  the trace empty and the flag clear.
\<close>

theorem keyframe_first_witness:
  "ripc_keeps_video example_externals \<and>
   \<not> sent_first_frame ((example_host 0)\<lparr>pairing_state := PAIRINGSTATE_PAIRED,
                                        ready_to_send_frames := True\<rparr>) \<and>
   (\<exists>host'. seq_res (map (send_video_call example_externals) [(0, 0, 0, 0, [1], [2])])
              ((example_host 0)\<lparr>pairing_state := PAIRINGSTATE_PAIRED,
                                ready_to_send_frames := True\<rparr>) = Inr host' \<and>
      sent_first_frame host' \<and>
      (\<exists>evs m ms. trace host' = evs \<and> slice_events evs = m # ms \<and> 0 < csdSize m)) \<and>
   (\<exists>host'. xrsp_send_video example_externals
              ((example_host 0)\<lparr>pairing_state := PAIRINGSTATE_PAIRED,
                                ready_to_send_frames := True\<rparr>) 0 0 0 0 [] [2] 0 = Inr host' \<and>
      \<not> sent_first_frame host' \<and> trace host' = [])"
proof -
  define H where "H = (example_host 0)\<lparr>pairing_state := PAIRINGSTATE_PAIRED,
                                        ready_to_send_frames := True\<rparr>"
  have nf: "\<not> sent_first_frame H" unfolding H_def example_host_def by simp
  have free: "\<not> usb_mutex H" unfolding H_def example_host_def by simp
  have act: "pairing_state H = PAIRINGSTATE_PAIRED" "ready_to_send_frames H" "trace H = []"
    unfolding H_def example_host_def by simp_all
  have ok: "slot_ok (QL_IDX_SLICE 0 0)" unfolding slot_ok_def QL_IDX_SLICE_def slots_3 by simp
  have segs: "\<forall>m. \<forall>seg \<in> set (segments_for_output example_externals m). seg \<noteq> [] \<and> length seg \<le> 0x7FFF0000"
    "\<forall>m. length (segments_for_output example_externals m) \<le> 0x1000000"
    unfolding example_externals_def by simp_all
  have rpc: "\<forall>c h. \<exists>h'. xrsp_ripc example_externals c h = Inr h'"
    unfolding example_externals_def by simp
  have rid: "\<And>c h h'. xrsp_ripc example_externals c h = Inr h' \<Longrightarrow> h' = h"
    unfolding example_externals_def by simp
  note t = keyframe_first [OF example_ripc_keeps_video nf]
  from send_video_returns [OF ok ok free segs _ _ _ rpc, of "[2]" "[1]" 0 0 0]
  obtain h1 where h1: "xrsp_send_video example_externals H 0 0 0 0 [1] [2] 0 = Inr h1" by auto
  then have r1: "seq_res (map (send_video_call example_externals) [(0, 0, 0, 0, [1], [2])]) H = Inr h1"
    by simp
  from h1 have sf: "sent_first_frame h1"
  proof (cases rule: send_video_cases)
    case paused
    then show ?thesis using act by simp
  next
    case (suppressed h9)
    then show ?thesis by simp
  next
    case (sent h9 msg evs)
    from rid [OF sent(8)] sent(7) show ?thesis by simp
  qed
  from t r1 obtain evs where evs: "trace h1 = trace H @ evs"
    "case slice_events evs of [] \<Rightarrow> \<not> sent_first_frame h1 | m # ms \<Rightarrow> 0 < csdSize m \<and> sent_first_frame h1"
    by blast
  from evs(2) sf obtain m ms where "slice_events evs = m # ms" "0 < csdSize m"
    by (cases "slice_events evs") auto
  with evs(1) act(3) have a: "\<exists>evs m ms. trace h1 = evs \<and> slice_events evs = m # ms \<and> 0 < csdSize m"
    by simp
  from send_video_returns [OF ok ok free segs _ _ _ rpc, of "[2]" "[]" 0 0 0]
  obtain h2 where h2: "xrsp_send_video example_externals H 0 0 0 0 [] [2] 0 = Inr h2" by auto
  from t h2 obtain h9 where h9: "\<not> sent_first_frame h2" "trace h9 = trace H"
    "h2 = h9 \<or> xrsp_ripc example_externals (VoidBoolCmd (client_id h9) ''EnableEyeTrackingForPCLink'') h9 = Inr h2"
    by blast
  from h9(3) rid have "h2 = h9" by blast
  with h9 act(3) have b: "\<not> sent_first_frame h2 \<and> trace h2 = []" by simp
  from example_ripc_keeps_video nf r1 sf a h2 b show ?thesis unfolding H_def by blast
qed

section \<open>Send failures and reopening the device (C8)\<close>

lemma failed_opens_0: "failed_opens 0 = []"
  unfolding failed_opens_def by simp

lemma failed_opens_Suc: "failed_opens (Suc k) = EvUsbOpen False # EvSleepMs 500 # failed_opens k"
  unfolding failed_opens_def by simp

lemma reopen_loop_Suc:
  "\<exists>k. k \<le> Suc n \<and> (\<forall>j<k. \<not> usb_open h (n_open h + j)) \<and>
     (if k < Suc n
      then usb_open h (n_open h + k) \<and>
           reopen_loop (Suc n) h = h\<lparr>dev := True, n_open := n_open h + k + 1,
                                     trace := trace h @ failed_opens k @ [EvUsbOpen True]\<rparr>
      else reopen_loop (Suc n) h = h\<lparr>dev := False, n_open := n_open h + k,
                                     trace := trace h @ failed_opens k\<rparr>)"
proof (induction n arbitrary: h)
  case 0
  show ?case
  proof (cases "usb_open h (n_open h)")
    case True
    then show ?thesis
      by (intro exI [of _ 0]) (simp add: usb_open_device_def failed_opens_0 Let_def)
  next
    case False
    then show ?thesis
      by (intro exI [of _ 1]) (simp add: usb_open_device_def failed_opens_Suc failed_opens_0 Let_def)
  qed
next
  case (Suc n)
  show ?case
  proof (cases "usb_open h (n_open h)")
    case True
    then show ?thesis
      by (intro exI [of _ 0]) (simp add: usb_open_device_def failed_opens_0 Let_def)
  next
    case False
    define h1 where "h1 = h\<lparr>dev := False, n_open := n_open h + 1,
                             trace := trace h @ [EvUsbOpen False, EvSleepMs 500]\<rparr>"
    have step: "reopen_loop (Suc (Suc n)) h = reopen_loop (Suc n) h1"
      using False unfolding h1_def by (simp add: usb_open_device_def Let_def)
    have f: "usb_open h1 = usb_open h" "n_open h1 = n_open h + 1"
      "trace h1 = trace h @ [EvUsbOpen False, EvSleepMs 500]"
      unfolding h1_def by simp_all
    from Suc.IH [of h1] obtain k where k: "k \<le> Suc n" "\<forall>j<k. \<not> usb_open h1 (n_open h1 + j)"
      "if k < Suc n
       then usb_open h1 (n_open h1 + k) \<and>
           reopen_loop (Suc n) h1 = h1\<lparr>dev := True, n_open := n_open h1 + k + 1,
                                     trace := trace h1 @ failed_opens k @ [EvUsbOpen True]\<rparr>
       else reopen_loop (Suc n) h1 = h1\<lparr>dev := False, n_open := n_open h1 + k,
                                     trace := trace h1 @ failed_opens k\<rparr>"
      by blast
    have a: "Suc k \<le> Suc (Suc n)" using k(1) by simp
    have b: "\<forall>j<Suc k. \<not> usb_open h (n_open h + j)"
    proof (intro allI impI)
      fix j assume "j < Suc k"
      show "\<not> usb_open h (n_open h + j)"
      proof (cases j)
        case 0
        then show ?thesis using False by simp
      next
        case (Suc i)
        with \<open>j < Suc k\<close> have "i < k" by simp
        with k(2) have "\<not> usb_open h1 (n_open h1 + i)" by blast
        then show ?thesis unfolding f Suc by simp
      qed
    qed
    have c: "if Suc k < Suc (Suc n)
      then usb_open h (n_open h + Suc k) \<and>
           reopen_loop (Suc (Suc n)) h = h\<lparr>dev := True, n_open := n_open h + Suc k + 1,
                                     trace := trace h @ failed_opens (Suc k) @ [EvUsbOpen True]\<rparr>
      else reopen_loop (Suc (Suc n)) h = h\<lparr>dev := False, n_open := n_open h + Suc k,
                                     trace := trace h @ failed_opens (Suc k)\<rparr>"
      using k(3) unfolding step f failed_opens_Suc by (simp add: h1_def split: if_splits)
    from a b c show ?thesis by blast
  qed
qed


lemma send_usb_failure:
  assumes "usb_valid host"
    and "fst (bulk_out host (n_out host)) = LIBUSB_ERROR_NO_DEVICE
         \<or> fst (bulk_out host (n_out host)) = LIBUSB_ERROR_TIMEOUT"
  shows "xrsp_send_usb host msg =
           host\<lparr>n_out := n_out host + 1, usb_valid := False,
                pairing_state := PAIRINGSTATE_WAIT_FIRST\<rparr>"
  using assms unfolding xrsp_send_usb_def Let_def
  by (auto simp: case_prod_beta LIBUSB_ERROR_NO_DEVICE_def LIBUSB_ERROR_TIMEOUT_def)

lemma cleanup_eq:
  "usb_init_cleanup h = Inr (- 1, h\<lparr>usb_mutex := False, trace := trace h @ [EvUnlock]\<rparr>)"
  unfolding usb_init_cleanup_def by simp

lemma claim_effect:
  "\<exists>ret h'. usb_init_claim U h = Inr (ret, h') \<and> pairing_state h' = pairing_state h \<and>
      \<not> usb_mutex h' \<and> trace h' = trace h @ claim_events U \<and>
      (ret \<noteq> 0 \<longrightarrow> usb_valid h' = usb_valid h) \<and> (ret = 0 \<longrightarrow> usb_valid h') \<and>
      (ret = 0) = (0 \<le> claim_ret U \<and> config_ok U)"
  unfolding usb_init_claim_def cleanup_eq claim_events_def Let_def by auto

lemma usb_init_effect:
  assumes free: "\<not> usb_mutex host"
  shows "\<exists>ret host'. ql_xrsp_usb_init U host do_reset = Inr (ret, host') \<and>
      pairing_state host' = PAIRINGSTATE_WAIT_FIRST \<and> usb_valid host' = (ret = 0) \<and>
      \<not> usb_mutex host' \<and>
      (if \<not> usb_open host (n_open host)
       then ret = - 1 \<and>
            trace host' = trace host @ [EvLock] @ close_events host @ [EvUsbOpen False, EvUnlock]
       else if \<not> do_reset
       then (ret = 0) = (0 \<le> claim_ret U \<and> config_ok U) \<and>
            trace host' = trace host @ [EvLock] @ close_events host @ [EvUsbOpen True]
                            @ claim_events U
       else if reset_ret U \<noteq> LIBUSB_ERROR_NOT_FOUND \<and> reset_ret U \<noteq> LIBUSB_SUCCESS
       then ret = - 1 \<and>
            trace host' = trace host @ [EvLock] @ close_events host
                            @ [EvUsbOpen True, EvUsbReset, EvUnlock]
       else (\<exists>k \<le> 10. (\<forall>j<k. \<not> usb_open host (n_open host + 1 + j)) \<and>
               (k < 10 \<longrightarrow> usb_open host (n_open host + 1 + k)
                    \<and> (ret = 0) = (0 \<le> claim_ret U \<and> config_ok U)) \<and>
               (k = 10 \<longrightarrow> ret = - 1) \<and>
               trace host' = trace host @ [EvLock] @ close_events host
                   @ [EvUsbOpen True, EvUsbReset]
                   @ (if reset_ret U = LIBUSB_SUCCESS then [EvUsbClose] else [])
                   @ failed_opens k
                   @ (if k < 10 then [EvUsbOpen True] @ claim_events U else [EvUnlock])))"
proof -
  define host3 where "host3 = host\<lparr>usb_mutex := True,
      trace := trace host @ [EvLock] @ close_events host,
      usb_speed := LIBUSB_SPEED_LOW, usb_valid := False,
      pairing_state := PAIRINGSTATE_WAIT_FIRST,
      ready_to_send_frames := False, sent_first_frame := False\<rparr>"
  define host4 where "host4 = usb_open_device host3"
  have f4: "dev host4 = usb_open host (n_open host)" "pairing_state host4 = PAIRINGSTATE_WAIT_FIRST"
    "\<not> usb_valid host4" "usb_open host4 = usb_open host" "n_open host4 = n_open host + 1"
    "trace host4 = trace host @ [EvLock] @ close_events host @ [EvUsbOpen (usb_open host (n_open host))]"
    unfolding host4_def host3_def usb_open_device_def by simp_all
  have unf: "ql_xrsp_usb_init U host do_reset =
     (if \<not> dev host4 then usb_init_cleanup host4
      else if do_reset
      then
        (let host5 = host4\<lparr>trace := trace host4 @ [EvUsbReset]\<rparr>
         in if reset_ret U \<noteq> LIBUSB_ERROR_NOT_FOUND \<and> reset_ret U \<noteq> LIBUSB_SUCCESS
            then usb_init_cleanup host5
            else
              (let host6 = (if reset_ret U = LIBUSB_ERROR_NOT_FOUND then host5
                            else host5\<lparr>trace := trace host5 @ [EvUsbClose]\<rparr>);
                   host7 = reopen_loop 10 host6
               in if \<not> dev host7 then usb_init_cleanup host7
                  else usb_init_claim U host7))
      else usb_init_claim U host4)"
    using free unfolding ql_xrsp_usb_init_def Let_def host4_def host3_def close_events_def
    by (cases "dev host") simp_all
  show ?thesis
  proof (cases "usb_open host (n_open host)")
    case False
    then show ?thesis unfolding unf cleanup_eq using f4 by simp
  next
    case opened: True
    show ?thesis
    proof (cases do_reset)
      case False
      from claim_effect [of U host4] obtain ret h' where
        c: "usb_init_claim U host4 = Inr (ret, h')" "pairing_state h' = pairing_state host4"
        "\<not> usb_mutex h'" "trace h' = trace host4 @ claim_events U"
        "ret \<noteq> 0 \<longrightarrow> usb_valid h' = usb_valid host4" "ret = 0 \<longrightarrow> usb_valid h'"
        "(ret = 0) = (0 \<le> claim_ret U \<and> config_ok U)"
        by blast
      have "usb_valid h' = (ret = 0)" using c(5,6) f4(3) by auto
      then show ?thesis unfolding unf using opened False c f4 by simp
    next
      case reset: True
      show ?thesis
      proof (cases "reset_ret U \<noteq> LIBUSB_ERROR_NOT_FOUND \<and> reset_ret U \<noteq> LIBUSB_SUCCESS")
        case True
        then show ?thesis unfolding unf cleanup_eq Let_def using opened reset f4 by simp
      next
        case rok: False
        define host6 where "host6 = host4\<lparr>trace := trace host4 @ [EvUsbReset]
                @ (if reset_ret U = LIBUSB_SUCCESS then [EvUsbClose] else [])\<rparr>"
        have rr: "reset_ret U = LIBUSB_ERROR_NOT_FOUND \<longleftrightarrow> reset_ret U \<noteq> LIBUSB_SUCCESS"
          using rok by (auto simp: LIBUSB_ERROR_NOT_FOUND_def LIBUSB_SUCCESS_def)
        have sel: "\<And>A B D E. (if \<not> usb_open host (n_open host) then A else if \<not> do_reset then B
              else if reset_ret U \<noteq> LIBUSB_ERROR_NOT_FOUND \<and> reset_ret U \<noteq> LIBUSB_SUCCESS then D
              else E) = E"
          using opened reset rok by auto
        have unf2: "ql_xrsp_usb_init U host do_reset =
            (if \<not> dev (reopen_loop (Suc 9) host6) then usb_init_cleanup (reopen_loop (Suc 9) host6)
             else usb_init_claim U (reopen_loop (Suc 9) host6))"
          unfolding unf Let_def host6_def using opened reset rok f4(1) rr by simp
        have f6: "usb_open host6 = usb_open host" "n_open host6 = n_open host + 1"
          "pairing_state host6 = PAIRINGSTATE_WAIT_FIRST" "\<not> usb_valid host6"
          "trace host6 = trace host @ [EvLock] @ close_events host @ [EvUsbOpen True, EvUsbReset]
                   @ (if reset_ret U = LIBUSB_SUCCESS then [EvUsbClose] else [])"
          unfolding host6_def using f4 opened by simp_all
        from reopen_loop_Suc [of 9 host6] obtain k where
          k: "k \<le> Suc 9" "\<forall>j<k. \<not> usb_open host6 (n_open host6 + j)"
          "if k < Suc 9
           then usb_open host6 (n_open host6 + k) \<and>
             reopen_loop (Suc 9) host6 = host6\<lparr>dev := True, n_open := n_open host6 + k + 1,
                                     trace := trace host6 @ failed_opens k @ [EvUsbOpen True]\<rparr>
           else reopen_loop (Suc 9) host6 = host6\<lparr>dev := False, n_open := n_open host6 + k,
                                     trace := trace host6 @ failed_opens k\<rparr>"
          by blast
        have k10: "k \<le> 10" using k(1) by simp
        have kj: "\<forall>j<k. \<not> usb_open host (n_open host + 1 + j)" using k(2) unfolding f6 .
        show ?thesis
        proof (cases "k < Suc 9")
          case True
          with k(3) have r7: "reopen_loop (Suc 9) host6 =
               host6\<lparr>dev := True, n_open := n_open host6 + k + 1,
                     trace := trace host6 @ failed_opens k @ [EvUsbOpen True]\<rparr>" by simp
          define host7 where "host7 = reopen_loop (Suc 9) host6"
          have f7: "dev host7" "pairing_state host7 = PAIRINGSTATE_WAIT_FIRST" "\<not> usb_valid host7"
            "trace host7 = trace host6 @ failed_opens k @ [EvUsbOpen True]"
            unfolding host7_def r7 using f6 by simp_all
          from claim_effect [of U host7] obtain ret h' where
            c: "usb_init_claim U host7 = Inr (ret, h')" "pairing_state h' = pairing_state host7"
            "\<not> usb_mutex h'" "trace h' = trace host7 @ claim_events U"
            "ret \<noteq> 0 \<longrightarrow> usb_valid h' = usb_valid host7" "ret = 0 \<longrightarrow> usb_valid h'"
            "(ret = 0) = (0 \<le> claim_ret U \<and> config_ok U)"
            by blast
          have v: "usb_valid h' = (ret = 0)" using c(5,6) f7(3) by auto
          have klt: "k < 10" "k \<noteq> 10" using True by simp_all
          have ko: "usb_open host (n_open host + 1 + k)" using k(3) True unfolding f6 by simp
          have tr: "trace h' = trace host @ [EvLock] @ close_events host
                   @ [EvUsbOpen True, EvUsbReset]
                   @ (if reset_ret U = LIBUSB_SUCCESS then [EvUsbClose] else [])
                   @ failed_opens k
                   @ (if k < 10 then [EvUsbOpen True] @ claim_events U else [EvUnlock])"
            unfolding c(4) f7(4) f6(5) using klt by simp
          have run: "ql_xrsp_usb_init U host do_reset = Inr (ret, h')"
            unfolding unf2 host7_def[symmetric] using f7(1) c(1) by simp
          have fin: "\<exists>k \<le> 10. (\<forall>j<k. \<not> usb_open host (n_open host + 1 + j)) \<and>
               (k < 10 \<longrightarrow> usb_open host (n_open host + 1 + k)
                    \<and> (ret = 0) = (0 \<le> claim_ret U \<and> config_ok U)) \<and>
               (k = 10 \<longrightarrow> ret = - 1) \<and>
               trace h' = trace host @ [EvLock] @ close_events host
                   @ [EvUsbOpen True, EvUsbReset]
                   @ (if reset_ret U = LIBUSB_SUCCESS then [EvUsbClose] else [])
                   @ failed_opens k
                   @ (if k < 10 then [EvUsbOpen True] @ claim_events U else [EvUnlock])"
            using k10 kj klt(2) ko tr c(7) by blast
          show ?thesis
            unfolding sel using run c(2,3) f7(2) v fin by simp
        next
          case False
          then have keq: "k = 10" using k(1) by simp
          define host7 where "host7 = reopen_loop (Suc 9) host6"
          from False k(3) have r7: "host7 =
               host6\<lparr>dev := False, n_open := n_open host6 + k,
                     trace := trace host6 @ failed_opens k\<rparr>"
            unfolding host7_def by simp
          define h' where "h' = host7\<lparr>usb_mutex := False, trace := trace host7 @ [EvUnlock]\<rparr>"
          have run: "ql_xrsp_usb_init U host do_reset = Inr (- 1, h')"
            unfolding unf2 host7_def[symmetric] cleanup_eq h'_def by (simp add: r7)
          have fh: "pairing_state h' = PAIRINGSTATE_WAIT_FIRST" "\<not> usb_valid h'" "\<not> usb_mutex h'"
            unfolding h'_def r7 using f6 by simp_all
          have tr: "trace h' = trace host @ [EvLock] @ close_events host
                   @ [EvUsbOpen True, EvUsbReset]
                   @ (if reset_ret U = LIBUSB_SUCCESS then [EvUsbClose] else [])
                   @ failed_opens k
                   @ (if k < 10 then [EvUsbOpen True] @ claim_events U else [EvUnlock])"
            unfolding h'_def r7 using f6(5) keq by simp
          have fin: "\<exists>k \<le> 10. (\<forall>j<k. \<not> usb_open host (n_open host + 1 + j)) \<and>
               (k < 10 \<longrightarrow> usb_open host (n_open host + 1 + k)
                    \<and> ((- 1 :: int) = 0) = (0 \<le> claim_ret U \<and> config_ok U)) \<and>
               (k = 10 \<longrightarrow> (- 1 :: int) = - 1) \<and>
               trace h' = trace host @ [EvLock] @ close_events host
                   @ [EvUsbOpen True, EvUsbReset]
                   @ (if reset_ret U = LIBUSB_SUCCESS then [EvUsbClose] else [])
                   @ failed_opens k
                   @ (if k < 10 then [EvUsbOpen True] @ claim_events U else [EvUnlock])"
            using k10 kj tr keq by blast
          show ?thesis
            unfolding sel using run fh fin by simp
        qed
      qed
    qed
  qed
qed


text \<open>
  Claim C8, as the code has it. A send that fails with \<open>NO_DEVICE\<close> or \<open>TIMEOUT\<close>
  clears \<open>usb_valid\<close> and sets the pairing state to \<open>WAIT_FIRST\<close>, and changes
  nothing else of the host (the count of transfers is the model's own). A call of
  \<open>ql_xrsp_usb_init\<close> with the mutex free returns with the pairing state
  \<open>WAIT_FIRST\<close> and the mutex free, and the transport is valid exactly when it
  returns 0. It closes the handle it holds and opens the device once; if that fails it
  returns \<open>-1\<close> at once, with no reset and no other attempt. With \<open>do_reset\<close> it
  then resets the device; on an error other than \<open>NOT_FOUND\<close> it returns \<open>-1\<close>;
  otherwise it closes the handle (after a successful reset) and tries to open the device
  up to ten times, sleeping 500 ms after each failed attempt, where \<open>k\<close> is the number
  of failed attempts; after ten failures it returns \<open>-1\<close>. Without \<open>do_reset\<close> it
  makes neither this reset nor these attempts. Once the device is open it claims the
  interface, and it returns 0 exactly when the claim succeeds and the configuration of
  the device can be read; when the claim fails it resets the device, whatever
  \<open>do_reset\<close> is.
\<close>

theorem send_failure_then_reopen:
  "(usb_valid host \<longrightarrow>
      fst (bulk_out host (n_out host)) = LIBUSB_ERROR_NO_DEVICE
        \<or> fst (bulk_out host (n_out host)) = LIBUSB_ERROR_TIMEOUT \<longrightarrow>
      xrsp_send_usb host msg =
        host\<lparr>n_out := n_out host + 1, usb_valid := False,
             pairing_state := PAIRINGSTATE_WAIT_FIRST\<rparr>) \<and>
   (\<not> usb_mutex host \<longrightarrow>
      (\<exists>ret host'. ql_xrsp_usb_init U host do_reset = Inr (ret, host') \<and>
         pairing_state host' = PAIRINGSTATE_WAIT_FIRST \<and> usb_valid host' = (ret = 0) \<and>
         \<not> usb_mutex host' \<and>
         (if \<not> usb_open host (n_open host)
          then ret = - 1 \<and>
               trace host' = trace host @ [EvLock] @ close_events host
                               @ [EvUsbOpen False, EvUnlock]
          else if \<not> do_reset
          then (ret = 0) = (0 \<le> claim_ret U \<and> config_ok U) \<and>
               trace host' = trace host @ [EvLock] @ close_events host @ [EvUsbOpen True]
                               @ claim_events U
          else if reset_ret U \<noteq> LIBUSB_ERROR_NOT_FOUND \<and> reset_ret U \<noteq> LIBUSB_SUCCESS
          then ret = - 1 \<and>
               trace host' = trace host @ [EvLock] @ close_events host
                               @ [EvUsbOpen True, EvUsbReset, EvUnlock]
          else (\<exists>k \<le> 10. (\<forall>j<k. \<not> usb_open host (n_open host + 1 + j)) \<and>
                  (k < 10 \<longrightarrow> usb_open host (n_open host + 1 + k)
                    \<and> (ret = 0) = (0 \<le> claim_ret U \<and> config_ok U)) \<and>
                  (k = 10 \<longrightarrow> ret = - 1) \<and>
                  trace host' = trace host @ [EvLock] @ close_events host
                      @ [EvUsbOpen True, EvUsbReset]
                      @ (if reset_ret U = LIBUSB_SUCCESS then [EvUsbClose] else [])
                      @ failed_opens k
                      @ (if k < 10 then [EvUsbOpen True] @ claim_events U else [EvUnlock])))))"
proof -
  have a: "usb_valid host \<longrightarrow>
      fst (bulk_out host (n_out host)) = LIBUSB_ERROR_NO_DEVICE
        \<or> fst (bulk_out host (n_out host)) = LIBUSB_ERROR_TIMEOUT \<longrightarrow>
      xrsp_send_usb host msg =
        host\<lparr>n_out := n_out host + 1, usb_valid := False,
             pairing_state := PAIRINGSTATE_WAIT_FIRST\<rparr>"
    using send_usb_failure [of host msg] by blast
  show ?thesis
    using a usb_init_effect [of host U do_reset] by blast
qed

text \<open>
  Counterexample to C8 as stated. A send fails with \<open>NO_DEVICE\<close> and the device
  cannot be opened: \<open>ql_xrsp_usb_init\<close> with \<open>do_reset\<close> closes the handle, fails to
  open the device once and returns \<open>-1\<close>. It issues no reset and does not try again.
\<close>

theorem send_failure_then_reopen_counterexample:
  "\<not> usb_valid (xrsp_send_usb ((example_host 0)\<lparr>usb_open := (\<lambda>n. False),
         bulk_out := (\<lambda>n. (LIBUSB_ERROR_NO_DEVICE, 0))\<rparr>) []) \<and>
   map_sum id fst (ql_xrsp_usb_init example_usb_env
          (xrsp_send_usb ((example_host 0)\<lparr>usb_open := (\<lambda>n. False),
             bulk_out := (\<lambda>n. (LIBUSB_ERROR_NO_DEVICE, 0))\<rparr>) []) True) = Inr (- 1) \<and>
   map_sum id (trace \<circ> snd) (ql_xrsp_usb_init example_usb_env
          (xrsp_send_usb ((example_host 0)\<lparr>usb_open := (\<lambda>n. False),
             bulk_out := (\<lambda>n. (LIBUSB_ERROR_NO_DEVICE, 0))\<rparr>) []) True)
     = Inr [EvLock, EvUsbClose, EvUsbOpen False, EvUnlock]"
  by (simp add: xrsp_send_usb_def ql_xrsp_usb_init_def usb_open_device_def usb_init_cleanup_def
        Let_def example_host_def example_usb_env_def LIBUSB_ERROR_NO_DEVICE_def
        LIBUSB_ERROR_TIMEOUT_def LIBUSB_SUCCESS_def LIBUSB_SPEED_LOW_def)

text \<open>
  Witness for C8: a send that times out; then a reset of a device that opens, is reset,
  fails to open twice and opens at the third attempt.
\<close>

theorem send_failure_then_reopen_witness:
  "usb_valid ((example_host 0)\<lparr>usb_open := (\<lambda>n. n = 0 \<or> 3 \<le> n),
                 bulk_out := (\<lambda>n. (LIBUSB_ERROR_TIMEOUT, 0))\<rparr>) \<and>
   \<not> usb_valid (xrsp_send_usb ((example_host 0)\<lparr>usb_open := (\<lambda>n. n = 0 \<or> 3 \<le> n),
                 bulk_out := (\<lambda>n. (LIBUSB_ERROR_TIMEOUT, 0))\<rparr>) []) \<and>
   pairing_state (xrsp_send_usb ((example_host 0)\<lparr>usb_open := (\<lambda>n. n = 0 \<or> 3 \<le> n),
                 bulk_out := (\<lambda>n. (LIBUSB_ERROR_TIMEOUT, 0))\<rparr>) []) = PAIRINGSTATE_WAIT_FIRST \<and>
   (\<exists>host'. ql_xrsp_usb_init example_usb_env
               ((example_host 0)\<lparr>usb_open := (\<lambda>n. n = 0 \<or> 3 \<le> n),
                  bulk_out := (\<lambda>n. (LIBUSB_ERROR_TIMEOUT, 0))\<rparr>) True = Inr (0, host') \<and>
      usb_valid host' \<and>
      trace host' = [EvLock, EvUsbClose, EvUsbOpen True, EvUsbReset, EvUsbClose,
                     EvUsbOpen False, EvSleepMs 500, EvUsbOpen False, EvSleepMs 500,
                     EvUsbOpen True, EvUnlock])"
proof -
  define W where "W = (example_host 0)\<lparr>usb_open := (\<lambda>n. n = 0 \<or> 3 \<le> n),
                 bulk_out := (\<lambda>n. (LIBUSB_ERROR_TIMEOUT, 0))\<rparr>"
  have f: "usb_valid W" "fst (bulk_out W (n_out W)) = LIBUSB_ERROR_TIMEOUT" "\<not> usb_mutex W"
    "trace W = []" "close_events W = [EvUsbClose]" "n_open W = 0"
    "usb_open W = (\<lambda>n. n = 0 \<or> 3 \<le> n)"
    unfolding W_def example_host_def close_events_def by simp_all
  have u: "reset_ret example_usb_env = LIBUSB_SUCCESS" "claim_events example_usb_env = [EvUnlock]"
    "LIBUSB_SUCCESS \<noteq> LIBUSB_ERROR_NOT_FOUND" "claim_ret example_usb_env = 0"
    "config_ok example_usb_env"
    unfolding example_usb_env_def claim_events_def LIBUSB_SUCCESS_def LIBUSB_ERROR_NOT_FOUND_def
    by simp_all
  note t = send_failure_then_reopen [of W "[]" example_usb_env True]
  from t f(1,2) have s: "xrsp_send_usb W [] =
        W\<lparr>n_out := n_out W + 1, usb_valid := False, pairing_state := PAIRINGSTATE_WAIT_FIRST\<rparr>"
    by blast
  from t f(3) obtain ret host' where
    r: "ql_xrsp_usb_init example_usb_env W True = Inr (ret, host')"
    and v: "usb_valid host' = (ret = 0)"
    and c: "if \<not> usb_open W (n_open W)
          then ret = - 1 \<and>
               trace host' = trace W @ [EvLock] @ close_events W
                               @ [EvUsbOpen False, EvUnlock]
          else if \<not> True
          then (ret = 0) = (0 \<le> claim_ret example_usb_env \<and> config_ok example_usb_env) \<and>
               trace host' = trace W @ [EvLock] @ close_events W @ [EvUsbOpen True]
                               @ claim_events example_usb_env
          else if reset_ret example_usb_env \<noteq> LIBUSB_ERROR_NOT_FOUND
                  \<and> reset_ret example_usb_env \<noteq> LIBUSB_SUCCESS
          then ret = - 1 \<and>
               trace host' = trace W @ [EvLock] @ close_events W
                               @ [EvUsbOpen True, EvUsbReset, EvUnlock]
          else (\<exists>k \<le> 10. (\<forall>j<k. \<not> usb_open W (n_open W + 1 + j)) \<and>
                  (k < 10 \<longrightarrow> usb_open W (n_open W + 1 + k)
                    \<and> (ret = 0) = (0 \<le> claim_ret example_usb_env \<and> config_ok example_usb_env)) \<and>
                  (k = 10 \<longrightarrow> ret = - 1) \<and>
                  trace host' = trace W @ [EvLock] @ close_events W
                      @ [EvUsbOpen True, EvUsbReset]
                      @ (if reset_ret example_usb_env = LIBUSB_SUCCESS then [EvUsbClose] else [])
                      @ failed_opens k
                      @ (if k < 10 then [EvUsbOpen True] @ claim_events example_usb_env
                         else [EvUnlock]))"
    by blast
  have o: "usb_open W (n_open W)" unfolding f by simp
  have nb: "\<not> (reset_ret example_usb_env \<noteq> LIBUSB_ERROR_NOT_FOUND
                  \<and> reset_ret example_usb_env \<noteq> LIBUSB_SUCCESS)"
    unfolding u(1) by simp
  from c have "\<exists>k \<le> 10. (\<forall>j<k. \<not> usb_open W (n_open W + 1 + j)) \<and>
                  (k < 10 \<longrightarrow> usb_open W (n_open W + 1 + k)
                    \<and> (ret = 0) = (0 \<le> claim_ret example_usb_env \<and> config_ok example_usb_env)) \<and>
                  (k = 10 \<longrightarrow> ret = - 1) \<and>
                  trace host' = trace W @ [EvLock] @ close_events W
                      @ [EvUsbOpen True, EvUsbReset]
                      @ (if reset_ret example_usb_env = LIBUSB_SUCCESS then [EvUsbClose] else [])
                      @ failed_opens k
                      @ (if k < 10 then [EvUsbOpen True] @ claim_events example_usb_env
                         else [EvUnlock])"
    unfolding if_not_P [OF nb] using o by simp
  then obtain k where k0: "k \<le> 10" "\<forall>j<k. \<not> usb_open W (n_open W + 1 + j)"
    "k < 10 \<longrightarrow> usb_open W (n_open W + 1 + k)
        \<and> (ret = 0) = (0 \<le> claim_ret example_usb_env \<and> config_ok example_usb_env)"
    and tr0: "trace host' = trace W @ [EvLock] @ close_events W
                      @ [EvUsbOpen True, EvUsbReset]
                      @ (if reset_ret example_usb_env = LIBUSB_SUCCESS then [EvUsbClose] else [])
                      @ failed_opens k
                      @ (if k < 10 then [EvUsbOpen True] @ claim_events example_usb_env
                         else [EvUnlock])"
    by blast
  have k: "k \<le> 10" "\<forall>j<k. \<not> (1 + j = 0 \<or> 3 \<le> 1 + j)"
    "k < 10 \<longrightarrow> (1 + k = 0 \<or> 3 \<le> 1 + k)" "k < 10 \<longrightarrow> ret = 0"
    using k0 by (simp_all add: f u)
  have tr: "trace host' = [EvLock, EvUsbClose, EvUsbOpen True, EvUsbReset, EvUsbClose]
                @ failed_opens k @ (if k < 10 then [EvUsbOpen True, EvUnlock] else [EvUnlock])"
    using tr0 by (simp add: f u)
  have "\<not> 2 < k" using k(2) by auto
  moreover have "2 \<le> k" using k(1,3) by auto
  ultimately have k2: "k = 2" by simp
  have fo: "failed_opens 2 = [EvUsbOpen False, EvSleepMs 500, EvUsbOpen False, EvSleepMs 500]"
    unfolding failed_opens_def by (simp add: numeral_2_eq_2)
  have tr2: "trace host' = [EvLock, EvUsbClose, EvUsbOpen True, EvUsbReset, EvUsbClose,
                     EvUsbOpen False, EvSleepMs 500, EvUsbOpen False, EvSleepMs 500,
                     EvUsbOpen True, EvUnlock]"
    unfolding tr k2 fo by simp
  have r0: "ret = 0" using k(4) k2 by simp
  show ?thesis
    unfolding W_def[symmetric] using f(1) s r v tr2 r0 by simp
qed

section \<open>The clock offset computed from a PONG (C4)\<close>

lemma s64_id: "- (2 ^ 63) \<le> x \<Longrightarrow> x < 2 ^ 63 \<Longrightarrow> s64 x = x"
  unfolding s64_def by (rule signed_take_bit_int_eq_self)

lemma send_to_topic_returns_any:
  assumes "\<not> usb_mutex h" "length data \<le> 0x7FFF0000"
  shows "\<exists>h'. xrsp_send_to_topic h tp data = Inr h'"
proof (cases "data = []")
  case True
  then show ?thesis using assms(1) unfolding xrsp_send_to_topic_def Let_def by simp
next
  case False
  from send_to_topic_returns [OF assms(1) False assms(2), of tp] show ?thesis by blast
qed

lemma send_ping_effect:
  assumes free: "\<not> usb_mutex h"
    and craft: "\<forall>k i a b c d. length (ql_xrsp_craft_echo E k i a b c d) \<le> 0x7FFF0000"
  shows "\<exists>h'. xrsp_send_ping E h = Inr h' \<and> ns_offset h' = ns_offset h"
proof -
  define host1 where "host1 = h\<lparr>n_clock := n_clock h + 1\<rparr>"
  define host3 where "host3 = host1\<lparr>n_clock := n_clock host1 + 1,
                        echo_req_sent_ns := s64 (mono_ns host1 (n_clock host1))\<rparr>"
  define req where "req = ql_xrsp_craft_echo E ECHO_PING (echo_idx host3) 0 0
                    (echo_req_sent_ns host3) (ns_offset host3)"
  have f3: "\<not> usb_mutex host3" "ns_offset host3 = ns_offset h" "ns_offset host1 = ns_offset h"
    unfolding host3_def host1_def using free by simp_all
  have unf: "xrsp_send_ping E h =
      (if s64 (s64 (mono_ns h (n_clock h)) - echo_req_sent_ns host1) < 16000000 then Inr host1
       else bind_res (xrsp_send_to_topic host3 (TOPIC_HOSTINFO_ADV E) req)
                 (\<lambda>host4. Inr (host4\<lparr>echo_idx := s32 (echo_idx host4 + 1)\<rparr>)))"
    unfolding xrsp_send_ping_def xrsp_ts_ns_def Let_def req_def host3_def host1_def by simp
  have len: "length req \<le> 0x7FFF0000" unfolding req_def using craft by blast
  from send_to_topic_returns_any [OF f3(1) len, of "TOPIC_HOSTINFO_ADV E"]
  obtain h4 where h4: "xrsp_send_to_topic host3 (TOPIC_HOSTINFO_ADV E) req = Inr h4" by blast
  have "ns_offset h4 = ns_offset host3" by (rule only_sent_same(12) [OF only_sent_topic [OF h4]])
  then show ?thesis unfolding unf bind_res_def h4 using f3 by simp
qed

lemma drop_bit_Suc0: "drop_bit (Suc 0) (x::int) = x div 2" by (simp add: drop_bit_eq_div)

text \<open>
  Claim C4, as the code has it. Handling a PONG (bit 0 of \<open>result\<close> set) with the
  mutex free returns, and the sample it computes is
  \<open>((recv - now) + (xmt - recv_ns)) >> 1\<close>, rounded down, where \<open>now\<close> is what the
  clock reads when the PONG is handled, \<open>recv\<close> and \<open>xmt\<close> are the peer's two
  timestamps and \<open>recv_ns\<close> is the time the PONG was received: neither the \<open>org\<close>
  field of the PONG nor the time the PING was sent enters it. The sample becomes
  \<open>ns_offset\<close> when \<open>ns_offset\<close> is 0, and otherwise \<open>ns_offset\<close> becomes the sum
  of the two divided by 2, rounded towards zero. This is proved for \<open>recv\<close>, \<open>xmt\<close>,
  \<open>recv_ns\<close> and \<open>now\<close> below \<open>2 ^ 61\<close> and \<open>ns_offset\<close> below \<open>2 ^ 62\<close> in absolute
  value, where no 64-bit difference or sum overflows, and for echo messages of at most
  0x7FFF0000 bytes.
\<close>

theorem echo_offset:
  assumes pong: "result pkt AND 1 = 1"
    and free: "\<not> usb_mutex host"
    and craft: "\<forall>k i a b c d. length (ql_xrsp_craft_echo E k i a b c d) \<le> 0x7FFF0000"
    and bounds: "\<bar>recv (echo pkt)\<bar> < 2 ^ 61" "\<bar>xmt (echo pkt)\<bar> < 2 ^ 61"
      "\<bar>recv_ns pkt\<bar> < 2 ^ 61" "\<bar>mono_ns host (n_clock host)\<bar> < 2 ^ 61"
      "\<bar>ns_offset host\<bar> < 2 ^ 62"
  shows "\<exists>host'. xrsp_handle_echo E host pkt = Inr host' \<and>
           ns_offset host' =
             (let now = mono_ns host (n_clock host);
                  new = ((recv (echo pkt) - now) + (xmt (echo pkt) - recv_ns pkt)) div 2
              in if ns_offset host = 0 then new else c_div (ns_offset host + new) 2)"
proof -
  define now where "now = mono_ns host (n_clock host)"
  define new where "new = ((recv (echo pkt) - now) + (xmt (echo pkt) - recv_ns pkt)) div 2"
  define v where "v = (if ns_offset host = 0 then new else c_div (ns_offset host + new) 2)"
  define host3 where "host3 = host\<lparr>echo_req_recv_ns := recv (echo pkt),
        echo_resp_sent_ns := xmt (echo pkt), echo_resp_recv_ns := recv_ns pkt,
        n_clock := n_clock host + 1, echo_req_sent_ns := now\<rparr>"
  define host4 where "host4 = host3\<lparr>ns_offset := v\<rparr>"
  have b: "\<bar>now\<bar> < 2 ^ 61" unfolding now_def by (rule bounds(4))
  have n1: "s64 now = now" using b by (intro s64_id) auto
  have d1: "s64 (recv (echo pkt) - now) = recv (echo pkt) - now"
    using b bounds(1) by (intro s64_id) auto
  have d2: "s64 (xmt (echo pkt) - recv_ns pkt) = xmt (echo pkt) - recv_ns pkt"
    using bounds(2,3) by (intro s64_id) auto
  have d3: "s64 ((recv (echo pkt) - now) + (xmt (echo pkt) - recv_ns pkt))
              = (recv (echo pkt) - now) + (xmt (echo pkt) - recv_ns pkt)"
    using b bounds(1,2,3) by (intro s64_id) auto
  have nb: "- (2 ^ 62) \<le> new" "new < 2 ^ 62"
    unfolding new_def using b bounds(1,2,3) by auto
  have d4: "s64 (ns_offset host + new) = ns_offset host + new"
    using nb bounds(5) by (intro s64_id) auto
  note d4' = d4 [unfolded new_def]
  have unf: "xrsp_handle_echo E host pkt =
      (if pairing_state host4 = PAIRINGSTATE_PAIRED then xrsp_send_ping E host4 else Inr host4)"
    unfolding xrsp_handle_echo_def xrsp_ts_ns_def Let_def
    using pong
    by (simp add: now_def[symmetric] n1 d1 d2 d3 drop_bit_Suc0 d4'
          host4_def host3_def v_def new_def)
  have f4: "\<not> usb_mutex host4" "ns_offset host4 = v"
    unfolding host4_def host3_def using free by simp_all
  have "\<exists>host'. xrsp_handle_echo E host pkt = Inr host' \<and> ns_offset host' = v"
  proof (cases "pairing_state host4 = PAIRINGSTATE_PAIRED")
    case True
    from send_ping_effect [OF f4(1) craft] obtain h' where
      "xrsp_send_ping E host4 = Inr h'" "ns_offset h' = ns_offset host4" by blast
    then show ?thesis unfolding unf using True f4(2) by simp
  next
    case False
    then show ?thesis unfolding unf using f4(2) by simp
  qed
  then show ?thesis unfolding v_def new_def now_def Let_def .
qed


text \<open>
  Witness for C4: the PONG of the scenario handled at 1040 by a host whose offset is 6;
  the sample is -20 and the mean of 6 and -20 is -7.
\<close>

theorem echo_offset_witness:
  "(1 :: 16 word) AND 1 = 1 \<and> \<not> usb_mutex ((example_host 1040)\<lparr>ns_offset := 6\<rparr>) \<and>
   (\<exists>host'. xrsp_handle_echo example_externals ((example_host 1040)\<lparr>ns_offset := 6\<rparr>)
              \<lparr>message_type = BUILTIN_ECHO, result = 1, unk_4 = 0, recv_ns = 1040,
               echo = \<lparr>org = 1000, recv = 1010, xmt = 1030, offset = 0\<rparr>\<rparr> = Inr host' \<and>
      ns_offset host' = - 7)"
proof -
  define H where "H = (example_host 1040)\<lparr>ns_offset := 6\<rparr>"
  define P where "P = \<lparr>message_type = BUILTIN_ECHO, result = 1, unk_4 = 0, recv_ns = 1040,
               echo = \<lparr>org = 1000, recv = 1010, xmt = 1030, offset = 0\<rparr>\<rparr>"
  have pong: "result P AND 1 = 1" unfolding P_def by simp
  have free: "\<not> usb_mutex H" unfolding H_def example_host_def by simp
  have craft: "\<forall>k i a b c d. length (ql_xrsp_craft_echo example_externals k i a b c d) \<le> 0x7FFF0000"
    unfolding example_externals_def by simp
  have f: "recv (echo P) = 1010" "xmt (echo P) = 1030" "recv_ns P = 1040"
    "mono_ns H (n_clock H) = 1040" "ns_offset H = 6"
    unfolding P_def H_def example_host_def by simp_all
  have b: "\<bar>recv (echo P)\<bar> < 2 ^ 61" "\<bar>xmt (echo P)\<bar> < 2 ^ 61"
      "\<bar>recv_ns P\<bar> < 2 ^ 61" "\<bar>mono_ns H (n_clock H)\<bar> < 2 ^ 61" "\<bar>ns_offset H\<bar> < 2 ^ 62"
    unfolding f by simp_all
  from echo_offset [OF pong free craft b] obtain host' where
    "xrsp_handle_echo example_externals H P = Inr host'"
    "ns_offset host' = - 7"
    unfolding f Let_def by (auto simp: c_div_def)
  then show ?thesis using free unfolding H_def P_def by simp
qed

text \<open>
  Counterexample to C4 as stated: the scenario's PONG (\<open>org\<close> 1000, \<open>recv\<close> 1010,
  \<open>xmt\<close> 1030, received at 1040), handled at 1040 by a host that sent its PING at
  1000 and whose offset is 0, gives the offset -20, where the formula with \<open>org\<close> gives 0.
\<close>

theorem echo_offset_counterexample:
  "\<exists>host'. xrsp_handle_echo example_externals ((example_host 1040)\<lparr>echo_req_sent_ns := 1000\<rparr>)
              \<lparr>message_type = BUILTIN_ECHO, result = 1, unk_4 = 0, recv_ns = 1040,
               echo = \<lparr>org = 1000, recv = 1010, xmt = 1030, offset = 0\<rparr>\<rparr> = Inr host' \<and>
      ns_offset host' = - 20 \<and> ((1010 - 1000) + (1030 - 1040)) div 2 = (0 :: int)"
  by (simp add: xrsp_handle_echo_def xrsp_ts_ns_def Let_def example_host_def s64_def
        drop_bit_Suc0 signed_take_bit_eq_take_bit_shift take_bit_eq_mod)

section \<open>The order in which the writer sends frames (C3)\<close>







text \<open>What each call does to the two arrays that the scan reads.\<close>

lemma start_encode_keeps:
  "xrsp_start_encode host ts index slice_idx = Inr h \<Longrightarrow>
   needs_flush h = needs_flush host \<and> stream_started_ns h = stream_started_ns host"
  unfolding xrsp_start_encode_def xrsp_ts_ns_def Let_def by (auto split: if_splits)

lemma send_csd_keeps:
  "xrsp_send_csd host data index slice_idx = Inr h \<Longrightarrow>
   needs_flush h = needs_flush host \<and> stream_started_ns h = stream_started_ns host"
  unfolding xrsp_send_csd_def Let_def by (auto split: if_splits)

lemma send_idr_keeps:
  "xrsp_send_idr host data index slice_idx = Inr h \<Longrightarrow>
   needs_flush h = needs_flush host \<and> stream_started_ns h = stream_started_ns host"
  unfolding xrsp_send_idr_def Let_def by (auto split: if_splits)






















text \<open>The steps of a run, and the invariant of the scan.\<close>

lemma d3: "QL_SWAPCHAIN_DEPTH = 3" by (simp add: QL_SWAPCHAIN_DEPTH_def)






















section \<open>The handshake table (C1)\<close>



lemma sns_first_invite: "spec_next_state PAIRINGSTATE_WAIT_FIRST BUILTIN_INVITE = PAIRINGSTATE_WAIT_FIRST"
  by simp

lemma kp_refl: "keeps_pairing h h"
  unfolding keeps_pairing_def by simp

lemma kp_trans: "keeps_pairing a b \<Longrightarrow> keeps_pairing b c \<Longrightarrow> keeps_pairing a c"
  unfolding keeps_pairing_def by auto

lemma kp_upd:
  "pairing_state h' = pairing_state h \<Longrightarrow> bulk_out h' = bulk_out h \<Longrightarrow> n_out h' = n_out h \<Longrightarrow>
   keeps_pairing h h'"
  unfolding keeps_pairing_def no_out_failure_def by simp

lemma kp_only_sent:
  assumes "only_sent h h'"
  shows "keeps_pairing h h'"
proof -
  have "no_out_failure h \<longrightarrow> pairing_state h' = pairing_state h"
    "pairing_state h' = pairing_state h \<or> pairing_state h' = PAIRINGSTATE_WAIT_FIRST"
    using assms unfolding only_sent_def by blast+
  then show ?thesis unfolding keeps_pairing_def using only_sent_no_failure [OF assms] by blast
qed

lemma kp_topic: "xrsp_send_to_topic h tp d = Inr h' \<Longrightarrow> keeps_pairing h h'"
  by (rule kp_only_sent [OF only_sent_topic])

lemma kp_wrapped: "xrsp_send_to_topic_capnp_wrapped h tp i d = Inr h' \<Longrightarrow> keeps_pairing h h'"
  by (rule kp_only_sent [OF only_sent_wrapped])

lemma kp_segments: "xrsp_send_to_topic_capnp_segments h tp i segs = Inr h' \<Longrightarrow> keeps_pairing h h'"
  by (rule kp_only_sent [OF only_sent_segments])

lemma kp_ping:
  assumes "xrsp_send_ping E h = Inr h'"
  shows "keeps_pairing h h'"
proof -
  define host1 where "host1 = h\<lparr>n_clock := n_clock h + 1\<rparr>"
  define host3 where "host3 = host1\<lparr>n_clock := n_clock host1 + 1,
                        echo_req_sent_ns := s64 (mono_ns host1 (n_clock host1))\<rparr>"
  define req where "req = ql_xrsp_craft_echo E ECHO_PING (echo_idx host3) 0 0
                    (echo_req_sent_ns host3) (ns_offset host3)"
  have unf: "xrsp_send_ping E h =
      (if s64 (s64 (mono_ns h (n_clock h)) - echo_req_sent_ns host1) < 16000000 then Inr host1
       else bind_res (xrsp_send_to_topic host3 (TOPIC_HOSTINFO_ADV E) req)
                 (\<lambda>host4. Inr (host4\<lparr>echo_idx := s32 (echo_idx host4 + 1)\<rparr>)))"
    unfolding xrsp_send_ping_def xrsp_ts_ns_def Let_def req_def host3_def host1_def by simp
  have k1: "keeps_pairing h host1" unfolding host1_def by (rule kp_upd) simp_all
  have k3: "keeps_pairing h host3" unfolding host3_def host1_def by (rule kp_upd) simp_all
  show ?thesis
  proof (cases "s64 (s64 (mono_ns h (n_clock h)) - echo_req_sent_ns host1) < 16000000")
    case True
    with assms unf have "h' = host1" by simp
    then show ?thesis using k1 by simp
  next
    case False
    with assms unf obtain h4 where s: "xrsp_send_to_topic host3 (TOPIC_HOSTINFO_ADV E) req = Inr h4"
      and e: "h' = h4\<lparr>echo_idx := s32 (echo_idx h4 + 1)\<rparr>"
      unfolding bind_res_def by (auto split: sum.splits)
    have "keeps_pairing h4 h'" unfolding e by (rule kp_upd) simp_all
    from kp_trans [OF kp_trans [OF k3 kp_topic [OF s]] this] show ?thesis .
  qed
qed



lemma kp_seq:
  assumes "\<And>f h h'. f \<in> set fs \<Longrightarrow> f h = Inr h' \<Longrightarrow> keeps_pairing h h'"
    and "seq_res fs h = Inr h'"
  shows "keeps_pairing h h'"
  by (rule seq_res_rel [where R = keeps_pairing, OF kp_refl kp_trans assms])

lemma kp_finish_1:
  assumes "xrsp_finish_pairing_1 E h = Inr h'"
  shows "keeps_pairing h h'"
proof -
  from assms obtain h1 where a: "xrsp_send_ping E h = Inr h1"
    and b: "xrsp_send_to_topic_capnp_wrapped h1 (TOPIC_VIDEO E) 0 request_video_idk = Inr h'"
    unfolding xrsp_finish_pairing_1_def bind_res_def by (auto split: sum.splits)
  from kp_trans [OF kp_ping [OF a] kp_wrapped [OF b]] show ?thesis .
qed

lemma kp_mesh:
  assumes "xrsp_send_mesh E h = Inr h'"
  shows "keeps_pairing h h'"
proof -
  from assms obtain h1 where a: "xrsp_send_to_topic_capnp_segments h (TOPIC_MESH E) 2
                 (segments_for_output E PayloadRectifyMesh) = Inr h1"
    and e: "h' = h1\<lparr>sent_mesh := True\<rparr>"
    unfolding xrsp_send_mesh_def bind_res_def by (auto split: sum.splits)
  have "keeps_pairing h1 h'" unfolding e by (rule kp_upd) simp_all
  from kp_trans [OF kp_segments [OF a] this] show ?thesis .
qed

lemma kp_finish_2:
  assumes ext: "externals_keep_pairing E"
    and run: "xrsp_finish_pairing_2 E h = Inr h'"
  shows "keeps_pairing h h'"
proof -
  have rp: "\<And>c a b. xrsp_ripc E c a = Inr b \<Longrightarrow> keeps_pairing a b"
    using ext unfolding externals_keep_pairing_def by blast
  show ?thesis
  proof (rule kp_seq [OF _ run [unfolded xrsp_finish_pairing_2_def]])
    fix f a b
    assume f: "f \<in> set
       [xrsp_send_ping E,
        xrsp_send_audio_control E 1 1 0,
        (\<lambda>h. xrsp_send_to_topic h (TOPIC_COMMAND E)
                (cmd_pkt_idk 0x0005EC94E91B9D4F (COMMAND_TOGGLE_CHEMX E) 0 0 0 0 0)),
        (\<lambda>h. xrsp_send_to_topic h (TOPIC_COMMAND E)
                (cmd_pkt_idk 0x0005EC94E91B9D83 (COMMAND_TOGGLE_ASW E) 0 0 0 0 0)),
        (\<lambda>h. xrsp_send_to_topic h (TOPIC_COMMAND E)
                (cmd_pkt_idk 0x0005EC94E91B9D83 (COMMAND_DROP_FRAMES_STATE E) 0 1 0 0 0)),
        xrsp_send_input_control E 1 1 0,
        xrsp_send_input_control E 2 1 0,
        (\<lambda>h. xrsp_ripc E (EnsureServiceStarted (client_id h) ''com.oculus.systemdriver''
                            ''com.oculus.vrruntimeservice.VrRuntimeService'') h),
        xrsp_ripc E (ConnectToRemoteServer 1 ''com.oculus.systemdriver''
                       ''com.oculus.vrruntimeservice'' ''RuntimeServiceServer''),
        (\<lambda>h. xrsp_ripc E (EnsureServiceStarted (client_id h + 1) ''com.oculus.bodyapiservice''
                            ''com.oculus.bodyapiservice.BodyApiService'') h),
        xrsp_ripc E (ConnectToRemoteServer 2 ''com.oculus.bodyapiservice''
                       ''com.oculus.bodyapiservice'' ''BodyApiServiceServer''),
        (\<lambda>h. xrsp_ripc E (EnsureServiceStarted (client_id h + 2) ''com.oculus.bodyapiservice''
                            ''com.oculus.eyetrackingservice.EyeTrackingService'') h),
        xrsp_ripc E (ConnectToRemoteServer 3 ''com.oculus.bodyapiservice''
                       ''com.oculus.eyetrackingservice'' ''EyeTrackingServiceServer''),
        xrsp_send_mesh E]"
      and r: "f a = Inr b"
    from f r show "keeps_pairing a b"
      unfolding set_simps insert_iff empty_iff
      by (elim disjE)
         (auto intro: kp_ping kp_topic kp_mesh rp
               simp: xrsp_send_audio_control_def xrsp_send_input_control_def
               dest: kp_segments)
  qed
qed
























end
